(* ===== verification/CB_Prelude.thy ===== *)
theory CB_Prelude
  imports Main "HOL-Library.Word"
begin

text \<open>
  Shared vocabulary of the development: machine integers and byte vectors, Rust's
  little-endian conversions, Rust strings as UTF-8 byte sequences (validation, splitting
  into characters, white space, \<open>trim\<close>), decimal and \<open>Debug\<close> rendering, the \<open>Result\<close>
  type with the \<open>?\<close> operator, and byte parsers. Everything here belongs to the Rust
  language and its standard library; the components of the daemon start in the theories
  that import this one.
\<close>

unbundle bit_operations_syntax

named_theorems codec_simps \<open>equations of the encoder and decoder primitives\<close>
named_theorems session_simps \<open>equations of the session helpers\<close>

section \<open>Machine integers and byte vectors\<close>

type_synonym u8 = "8 word"
type_synonym u16 = "16 word"
type_synonym u32 = "32 word"
type_synonym u64 = "64 word"
type_synonym bytes = "u8 list"

text \<open>\<open>to_le_bytes\<close> and \<open>from_le_bytes\<close> of the unsigned integer types.\<close>

primrec le_bytes :: "nat \<Rightarrow> 'a::len word \<Rightarrow> bytes" where
  "le_bytes 0 w = []"
| "le_bytes (Suc n) w = ucast w # le_bytes n (drop_bit 8 w)"

primrec from_le_bytes :: "bytes \<Rightarrow> 'a::len word" where
  "from_le_bytes [] = 0"
| "from_le_bytes (b # bs) = ucast b OR push_bit 8 (from_le_bytes bs)"

abbreviation u16_to_le_bytes :: "u16 \<Rightarrow> bytes" where
  "u16_to_le_bytes \<equiv> le_bytes 2"

abbreviation u32_to_le_bytes :: "u32 \<Rightarrow> bytes" where
  "u32_to_le_bytes \<equiv> le_bytes 4"

abbreviation u64_to_le_bytes :: "u64 \<Rightarrow> bytes" where
  "u64_to_le_bytes \<equiv> le_bytes 8"

lemma length_le_bytes [simp]: "length (le_bytes n w) = n"
  by (induction n arbitrary: w) simp_all

lemma from_le_bytes_le_bytes:
  "from_le_bytes (le_bytes n w) = take_bit (8 * n) (w :: 'a::len word)"
proof (induction n arbitrary: w)
  case 0
  then show ?case by simp
next
  case (Suc n)
  show ?case
    unfolding le_bytes.simps from_le_bytes.simps Suc.IH
    by (rule bit_word_eqI) (auto simp: bit_simps)
qed

lemma from_le_bytes_u16 [simp]: "from_le_bytes (le_bytes 2 w) = (w :: u16)"
  and from_le_bytes_u32 [simp]: "from_le_bytes (le_bytes 4 x) = (x :: u32)"
  and from_le_bytes_u64 [simp]: "from_le_bytes (le_bytes 8 y) = (y :: u64)"
  by (simp_all add: from_le_bytes_le_bytes take_bit_word_eq_self)

lemma le_bytes_take_bit:
  "8 * n \<le> m \<Longrightarrow> le_bytes n (take_bit m w) = le_bytes n (w :: 'a::len word)"
proof (induction n arbitrary: m w)
  case (Suc n)
  have "drop_bit 8 (take_bit m w) = take_bit (m - 8) (drop_bit 8 w)"
    using Suc.prems by (intro bit_word_eqI) (auto simp: bit_simps)
  moreover have "ucast (take_bit m w) = (ucast w :: u8)"
    using Suc.prems by (intro bit_word_eqI) (auto simp: bit_simps)
  ultimately show ?case using Suc by simp
qed simp

lemma le_bytes_from_le_bytes:
  assumes "8 * length bs \<le> LENGTH('a)"
  shows "le_bytes (length bs) (from_le_bytes bs :: 'a::len word) = bs"
  using assms
proof (induction bs)
  case (Cons b bs)
  let ?r = "from_le_bytes bs :: 'a word"
  have "ucast (ucast b OR push_bit 8 ?r :: 'a word) = b"
    using Cons.prems by (intro bit_word_eqI) (auto simp: bit_simps)
  moreover have "drop_bit 8 (ucast b OR push_bit 8 ?r :: 'a word) = take_bit (LENGTH('a) - 8) ?r"
    using Cons.prems by (intro bit_word_eqI) (auto simp: bit_simps dest: bit_imp_le_length)
  ultimately show ?case using Cons by (simp add: le_bytes_take_bit)
qed simp

lemma unat_of_nat_small:
  "n < 2 ^ LENGTH('a) \<Longrightarrow> unat (word_of_nat n :: 'a::len word) = n"
  by (simp add: unat_of_nat take_bit_nat_eq_self)

lemma unat_u16_less: "unat (w :: u16) < 2 ^ 16"
  and unat_u32_less: "unat (x :: u32) < 2 ^ 32"
  by (rule order.strict_trans2 [OF unsigned_less], simp)+

lemma unat_u16_le [simp]: "unat (w :: u16) \<le> 65535"
  using unat_u16_less [of w] by simp

section \<open>Results and the question-mark operator\<close>

type_synonym ('e, 'a) result = "'e + 'a"

definition bind_result :: "('e, 'a) result \<Rightarrow> ('a \<Rightarrow> ('e, 'b) result) \<Rightarrow> ('e, 'b) result" where
  "bind_result r f = (case r of Inl e \<Rightarrow> Inl e | Inr a \<Rightarrow> f a)"

lemma bind_result_simps [simp]:
  "bind_result (Inl e) f = Inl e"
  "bind_result (Inr a) f = f a"
  by (simp_all add: bind_result_def)

lemma bind_result_eq_Inr:
  "bind_result r f = Inr b \<longleftrightarrow> (\<exists>a. r = Inr a \<and> f a = Inr b)"
  by (cases r) simp_all

text \<open>
  A reader takes the unread bytes (\<open>input: &mut &[u8]\<close>) and either fails or returns its
  value and the bytes that are left.
\<close>

type_synonym ('e, 'a) reader = "bytes \<Rightarrow> ('e, 'a \<times> bytes) result"

definition ret :: "'a \<Rightarrow> ('e, 'a) reader" where
  "ret a input = Inr (a, input)"

definition bind_reader :: "('e, 'a) reader \<Rightarrow> ('a \<Rightarrow> ('e, 'b) reader) \<Rightarrow> ('e, 'b) reader" where
  "bind_reader p f input = (case p input of Inl e \<Rightarrow> Inl e | Inr (a, rest) \<Rightarrow> f a rest)"

lemma ret_apply [simp]: "ret a input = Inr (a, input)"
  by (simp add: ret_def)

lemma bind_reader_Inr [simp]: "p input = Inr (a, rest) \<Longrightarrow> bind_reader p f input = f a rest"
  by (simp add: bind_reader_def)

lemma bind_reader_Inl [simp]: "p input = Inl e \<Longrightarrow> bind_reader p f input = Inl e"
  by (simp add: bind_reader_def)

lemma bind_reader_eq_Inr:
  "bind_reader p f input = Inr r \<longleftrightarrow> (\<exists>a rest. p input = Inr (a, rest) \<and> f a rest = Inr r)"
  by (auto simp: bind_reader_def split: sum.splits prod.splits)

text \<open>
  \<open>parses p out a\<close>: whatever follows the bytes \<open>out\<close>, the reader \<open>p\<close> returns \<open>a\<close> and
  leaves exactly what follows. It is the interface between the encoder's output and the
  decoder's input, and it composes along \<open>bind_reader\<close>.
\<close>

definition parses :: "('e, 'a) reader \<Rightarrow> bytes \<Rightarrow> 'a \<Rightarrow> bool" where
  "parses p out a \<longleftrightarrow> (\<forall>rest. p (out @ rest) = Inr (a, rest))"

lemma parsesD: "parses p out a \<Longrightarrow> p (out @ rest) = Inr (a, rest)"
  by (simp add: parses_def)

lemma parses_step: "parses p out a \<Longrightarrow> bind_reader p f (out @ rest) = f a rest"
  by (simp add: parses_def)

lemma parses_step_nil: "parses p out a \<Longrightarrow> bind_reader p f out = f a []"
  using parses_step [of p out a f "[]"] by simp

lemma parsesD_nil: "parses p out a \<Longrightarrow> p out = Inr (a, [])"
  using parsesD [of p out a "[]"] by simp

lemma parses_ret [intro]: "parses (ret a) [] a"
  by (simp add: parses_def)

lemma parses_bind:
  "parses p xs a \<Longrightarrow> parses (f a) ys b \<Longrightarrow> parses (bind_reader p f) (xs @ ys) b"
  by (simp add: parses_def)

section \<open>Loops that use up their input\<close>

text \<open>A loop whose every round consumes at least \<open>k\<close> units of a measure, except the last.\<close>

lemma consuming_loop_ends:
  fixes m :: "'s \<Rightarrow> nat"
  assumes "0 < k" and "\<And>x. P x \<Longrightarrow> \<not> P (f x) \<or> m (f x) + k \<le> m x"
  shows "\<exists>n. n \<le> m x div k + 1 \<and> \<not> P ((f ^^ n) x)"
proof (induction "m x" arbitrary: x rule: less_induct)
  case less
  consider "\<not> P x" | "\<not> P (f x)" | "m (f x) + k \<le> m x" using assms(2) by blast
  then show ?case
  proof cases
    case 1
    then show ?thesis by (intro exI [of _ 0]) simp
  next
    case 2
    then show ?thesis by (intro exI [of _ 1]) simp
  next
    case 3
    with assms(1) obtain n where n: "n \<le> m (f x) div k + 1" "\<not> P ((f ^^ n) (f x))"
      using less [of "f x"] by auto
    have "m (f x) div k + 1 = (m (f x) + k) div k" using assms(1) by (simp add: div_add_self2)
    also have "\<dots> \<le> m x div k" using 3 by (rule div_le_mono)
    finally show ?thesis using n by (intro exI [of _ "Suc n"]) (simp add: funpow_swap1)
  qed
qed

end
