(* ===== verification/Rust_String.thy ===== *)
theory Rust_String
  imports CB_Prelude
begin

text \<open>
  Rust's \<open>String\<close>: a sequence of bytes that is valid UTF-8. A \<open>string\<close> of the model is
  the list of those bytes, one \<open>char\<close> each, so \<open>length\<close> is Rust's \<open>len()\<close>. The theory
  holds \<open>as_bytes\<close>, \<open>str::from_utf8\<close>, \<open>chars\<close>, \<open>char::is_whitespace\<close>, \<open>trim\<close> and
  the decimal and \<open>Debug\<close> rendering the daemon's messages use.
\<close>

section \<open>Bytes of a string\<close>

definition byte_of_char :: "char \<Rightarrow> u8" where
  "byte_of_char c = word_of_nat (of_char c)"

definition char_of_byte :: "u8 \<Rightarrow> char" where
  "char_of_byte b = char_of (unat b)"

definition as_bytes :: "string \<Rightarrow> bytes" where
  "as_bytes s = map byte_of_char s"

definition of_bytes :: "bytes \<Rightarrow> string" where
  "of_bytes bs = map char_of_byte bs"

lemma char_of_byte_of_char [simp]: "char_of_byte (byte_of_char c) = c"
proof -
  have "of_char c < (256 :: nat)" by simp
  then show ?thesis
    by (simp add: char_of_byte_def byte_of_char_def unat_of_nat_small)
qed

lemma byte_of_char_of_byte [simp]: "byte_of_char (char_of_byte b) = b"
proof -
  have "unat b < 256" using unsigned_less [of b] by simp
  then show ?thesis by (simp add: char_of_byte_def byte_of_char_def)
qed

lemma of_bytes_as_bytes [simp]: "of_bytes (as_bytes s) = s"
  by (simp add: of_bytes_def as_bytes_def comp_def)

lemma as_bytes_of_bytes [simp]: "as_bytes (of_bytes bs) = bs"
  by (simp add: of_bytes_def as_bytes_def comp_def)

lemma length_as_bytes [simp]: "length (as_bytes s) = length s"
  by (simp add: as_bytes_def)

lemma length_of_bytes [simp]: "length (of_bytes bs) = length bs"
  by (simp add: of_bytes_def)

lemma as_bytes_append [simp]: "as_bytes (s @ t) = as_bytes s @ as_bytes t"
  by (simp add: as_bytes_def)

lemma as_bytes_Nil [simp]: "as_bytes [] = []"
  by (simp add: as_bytes_def)

section \<open>UTF-8\<close>

definition is_cont :: "u8 \<Rightarrow> bool" where
  "is_cont b \<longleftrightarrow> 0x80 \<le> b \<and> b \<le> 0xBF"

text \<open>The second byte of a three-byte and of a four-byte sequence (no overlong forms, no surrogates, nothing above U+10FFFF).\<close>

definition second_of_3 :: "u8 \<Rightarrow> u8 \<Rightarrow> bool" where
  "second_of_3 b c \<longleftrightarrow>
     (if b = 0xE0 then 0xA0 \<le> c \<and> c \<le> 0xBF
      else if b = 0xED then 0x80 \<le> c \<and> c \<le> 0x9F
      else is_cont c)"

definition second_of_4 :: "u8 \<Rightarrow> u8 \<Rightarrow> bool" where
  "second_of_4 b c \<longleftrightarrow>
     (if b = 0xF0 then 0x90 \<le> c \<and> c \<le> 0xBF
      else if b = 0xF4 then 0x80 \<le> c \<and> c \<le> 0x8F
      else is_cont c)"

text \<open>The first character of a byte sequence and the bytes after it.\<close>

fun utf8_next :: "bytes \<Rightarrow> (bytes \<times> bytes) option" where
  "utf8_next [] = None"
| "utf8_next (b # bs) =
     (if b \<le> 0x7F then Some ([b], bs)
      else if 0xC2 \<le> b \<and> b \<le> 0xDF then
        (case bs of c # r \<Rightarrow> if is_cont c then Some ([b, c], r) else None | _ \<Rightarrow> None)
      else if 0xE0 \<le> b \<and> b \<le> 0xEF then
        (case bs of
           c # d # r \<Rightarrow> if second_of_3 b c \<and> is_cont d then Some ([b, c, d], r) else None
         | _ \<Rightarrow> None)
      else if 0xF0 \<le> b \<and> b \<le> 0xF4 then
        (case bs of
           c # d # e # r \<Rightarrow>
             if second_of_4 b c \<and> is_cont d \<and> is_cont e then Some ([b, c, d, e], r) else None
         | _ \<Rightarrow> None)
      else None)"

declare utf8_next.simps(2) [simp del]

lemma utf8_next_split: "utf8_next bs = Some (c, r) \<Longrightarrow> bs = c @ r \<and> c \<noteq> []"
  by (cases bs) (auto simp: utf8_next.simps(2) split: if_splits list.splits)

lemma utf8_next_shorter: "utf8_next bs = Some (c, r) \<Longrightarrow> length r < length bs"
  by (auto dest: utf8_next_split)

lemma utf8_next_append: "utf8_next bs = Some (c, r) \<Longrightarrow> utf8_next (bs @ ys) = Some (c, r @ ys)"
  by (cases bs) (auto simp: utf8_next.simps(2) split: if_splits list.splits)

lemma utf8_next_self: "utf8_next bs = Some (c, r) \<Longrightarrow> utf8_next (c @ ys) = Some (c, ys)"
  by (cases bs) (auto simp: utf8_next.simps(2) split: if_splits list.splits)

lemma utf8_next_ascii: "b \<le> 0x7F \<Longrightarrow> utf8_next (b # bs) = Some ([b], bs)"
  by (simp add: utf8_next.simps(2))

function utf8_chars :: "bytes \<Rightarrow> bytes list option" where
  "utf8_chars [] = Some []"
| "utf8_chars (b # bs) =
     (case utf8_next (b # bs) of
        None \<Rightarrow> None
      | Some (c, r) \<Rightarrow> map_option (Cons c) (utf8_chars r))"
  by pat_completeness auto
termination
  by (relation "measure length") (auto dest: utf8_next_shorter)

declare utf8_chars.simps(2) [simp del]

lemma utf8_chars_nonempty:
  "bs \<noteq> [] \<Longrightarrow> utf8_chars bs =
     (case utf8_next bs of None \<Rightarrow> None | Some (c, r) \<Rightarrow> map_option (Cons c) (utf8_chars r))"
  by (cases bs) (simp_all add: utf8_chars.simps(2))

lemma utf8_chars_unfold:
  "utf8_next bs = Some (c, r) \<Longrightarrow> utf8_chars bs = map_option (Cons c) (utf8_chars r)"
  using utf8_chars_nonempty [of bs] by (cases bs) auto

lemma utf8_chars_concat: "utf8_chars bs = Some cs \<Longrightarrow> concat cs = bs"
proof (induction bs arbitrary: cs rule: utf8_chars.induct)
  case (2 b bs)
  then obtain c r cs' where nxt: "utf8_next (b # bs) = Some (c, r)"
    and "utf8_chars r = Some cs'" and "cs = c # cs'"
    by (auto simp: utf8_chars.simps(2) split: option.splits)
  with "2.IH" [OF nxt refl] utf8_next_split [OF nxt] show ?case by auto
qed simp

text \<open>One encoded character.\<close>

definition utf8_char :: "bytes \<Rightarrow> bool" where
  "utf8_char c \<longleftrightarrow> utf8_next c = Some (c, [])"

lemma utf8_char_next: "utf8_char c \<Longrightarrow> utf8_next (c @ ys) = Some (c, ys)"
  by (auto simp: utf8_char_def dest: utf8_next_self)

lemma utf8_chars_all: "utf8_chars bs = Some cs \<Longrightarrow> c \<in> set cs \<Longrightarrow> utf8_char c"
proof (induction bs arbitrary: cs rule: utf8_chars.induct)
  case (2 b bs)
  then obtain d r cs' where nxt: "utf8_next (b # bs) = Some (d, r)"
    and rec: "utf8_chars r = Some cs'" and cs: "cs = d # cs'"
    by (auto simp: utf8_chars.simps(2) split: option.splits)
  have "utf8_char d"
    using utf8_next_self [OF nxt, of "[]"] by (simp add: utf8_char_def)
  with "2.IH" [OF nxt refl rec] "2.prems" cs show ?case by auto
qed simp

lemma utf8_chars_of_concat: "\<forall>c\<in>set cs. utf8_char c \<Longrightarrow> utf8_chars (concat cs) = Some cs"
proof (induction cs)
  case (Cons c cs)
  then have "utf8_next (concat (c # cs)) = Some (c, concat cs)"
    by (simp add: utf8_char_next)
  with Cons show ?case by (simp add: utf8_chars_unfold)
qed simp

lemma utf8_chars_iff:
  "utf8_chars bs = Some cs \<longleftrightarrow> concat cs = bs \<and> (\<forall>c\<in>set cs. utf8_char c)"
  using utf8_chars_concat utf8_chars_all utf8_chars_of_concat by blast

lemma utf8_chars_append:
  assumes "utf8_chars xs = Some cs"
  shows "utf8_chars (xs @ ys) = map_option (append cs) (utf8_chars ys)"
proof -
  have "\<forall>c\<in>set cs. utf8_char c \<Longrightarrow>
      utf8_chars (concat cs @ ys) = map_option (append cs) (utf8_chars ys)" for cs
  proof (induction cs)
    case (Cons c cs)
    then have "utf8_next (concat (c # cs) @ ys) = Some (c, concat cs @ ys)"
      by (simp add: utf8_char_next)
    with Cons show ?case by (simp add: utf8_chars_unfold option.map_comp comp_def)
  qed (cases "utf8_chars ys", simp_all)
  with assms show ?thesis by (auto simp: utf8_chars_iff)
qed

lemma utf8_char_ascii: "b \<le> 0x7F \<Longrightarrow> utf8_char [b]"
  by (simp add: utf8_char_def utf8_next_ascii)

lemma utf8_chars_ascii:
  assumes "\<forall>b\<in>set bs. b \<le> 0x7F"
  shows "utf8_chars bs = Some (map (\<lambda>b. [b]) bs)"
proof -
  have "concat (map (\<lambda>b. [b]) bs) = bs" by (induction bs) simp_all
  with assms show ?thesis by (auto simp: utf8_chars_iff utf8_char_ascii)
qed

text \<open>The type invariant of \<open>String\<close>, and \<open>str::from_utf8\<close> (\<open>None\<close> for \<open>Utf8Error\<close>).\<close>

definition utf8_ok :: "string \<Rightarrow> bool" where
  "utf8_ok s \<longleftrightarrow> utf8_chars (as_bytes s) \<noteq> None"

definition from_utf8 :: "bytes \<Rightarrow> string option" where
  "from_utf8 bs = (if utf8_chars bs = None then None else Some (of_bytes bs))"

lemma from_utf8_as_bytes [simp]: "utf8_ok s \<Longrightarrow> from_utf8 (as_bytes s) = Some s"
  by (simp add: from_utf8_def utf8_ok_def)

lemma from_utf8_Some: "from_utf8 bs = Some s \<longleftrightarrow> utf8_ok s \<and> as_bytes s = bs"
  by (auto simp: from_utf8_def utf8_ok_def split: if_splits)

lemma utf8_ok_Nil [simp]: "utf8_ok []"
  by (simp add: utf8_ok_def)

lemma utf8_ok_ascii: "list_all (\<lambda>c. of_char c < (128 :: nat)) s \<Longrightarrow> utf8_ok s"
proof -
  assume *: "list_all (\<lambda>c. of_char c < (128 :: nat)) s"
  have "byte_of_char c \<le> 0x7F" if "of_char c < (128 :: nat)" for c
    using that by (simp add: byte_of_char_def word_le_nat_alt unat_of_nat_small)
  with * have "\<forall>b\<in>set (as_bytes s). b \<le> 0x7F" by (auto simp: as_bytes_def list_all_iff)
  then show ?thesis by (simp add: utf8_ok_def utf8_chars_ascii)
qed

lemma utf8_ok_append [intro]: "utf8_ok s \<Longrightarrow> utf8_ok t \<Longrightarrow> utf8_ok (s @ t)"
  by (auto simp: utf8_ok_def utf8_chars_append)

section \<open>Characters, white space, trim\<close>

text \<open>The scalar value of one encoded character.\<close>

fun scalar_value :: "bytes \<Rightarrow> int" where
  "scalar_value [b] = uint b"
| "scalar_value [b, c] = (uint b - 0xC0) * 64 + (uint c - 0x80)"
| "scalar_value [b, c, d] =
     (uint b - 0xE0) * 4096 + (uint c - 0x80) * 64 + (uint d - 0x80)"
| "scalar_value [b, c, d, e] =
     (uint b - 0xF0) * 262144 + (uint c - 0x80) * 4096 + (uint d - 0x80) * 64 + (uint e - 0x80)"
| "scalar_value _ = 0"

text \<open>\<open>char::is_whitespace\<close>: the characters with the Unicode property \<open>White_Space\<close>.\<close>

definition is_whitespace_scalar :: "int \<Rightarrow> bool" where
  "is_whitespace_scalar n \<longleftrightarrow>
     0x09 \<le> n \<and> n \<le> 0x0D \<or> n = 0x20 \<or> n = 0x85 \<or> n = 0xA0 \<or> n = 0x1680
     \<or> 0x2000 \<le> n \<and> n \<le> 0x200A \<or> n = 0x2028 \<or> n = 0x2029 \<or> n = 0x202F
     \<or> n = 0x205F \<or> n = 0x3000"

definition is_whitespace :: "bytes \<Rightarrow> bool" where
  "is_whitespace c \<longleftrightarrow> is_whitespace_scalar (scalar_value c)"

text \<open>\<open>chars\<close>, each character as its bytes. Every Rust string is valid; the other branch is never taken.\<close>

definition str_chars :: "string \<Rightarrow> bytes list" where
  "str_chars s = (case utf8_chars (as_bytes s) of None \<Rightarrow> [] | Some cs \<Rightarrow> cs)"

text \<open>\<open>collect::<String>()\<close> of a sequence of characters.\<close>

definition collect_chars :: "bytes list \<Rightarrow> string" where
  "collect_chars cs = of_bytes (concat cs)"

definition trim :: "string \<Rightarrow> string" where
  "trim s = collect_chars
     (rev (dropWhile is_whitespace (rev (dropWhile is_whitespace (str_chars s)))))"

lemma str_chars_char: "c \<in> set (str_chars s) \<Longrightarrow> utf8_char c"
  by (cases "utf8_chars (as_bytes s)") (auto simp: str_chars_def dest: utf8_chars_all)

lemma utf8_ok_collect_chars: "\<forall>c\<in>set cs. utf8_char c \<Longrightarrow> utf8_ok (collect_chars cs)"
  by (simp add: utf8_ok_def collect_chars_def utf8_chars_of_concat)

lemma str_chars_collect_chars: "\<forall>c\<in>set cs. utf8_char c \<Longrightarrow> str_chars (collect_chars cs) = cs"
  by (simp add: str_chars_def collect_chars_def utf8_chars_of_concat)

lemma collect_chars_str_chars: "utf8_ok s \<Longrightarrow> collect_chars (str_chars s) = s"
  by (cases "utf8_chars (as_bytes s)")
    (simp_all add: utf8_ok_def str_chars_def collect_chars_def utf8_chars_concat)

lemma str_chars_append: "utf8_ok s \<Longrightarrow> utf8_ok t \<Longrightarrow> str_chars (s @ t) = str_chars s @ str_chars t"
  by (auto simp: utf8_ok_def str_chars_def utf8_chars_append split: option.splits)

lemma set_dropWhile_subset: "x \<in> set (rev (dropWhile P (rev (dropWhile P xs)))) \<Longrightarrow> x \<in> set xs"
  using set_dropWhileD [of x P "rev (dropWhile P xs)"] set_dropWhileD [of x P xs] by auto

lemma utf8_ok_trim [simp]: "utf8_ok (trim s)"
  unfolding trim_def
  by (rule utf8_ok_collect_chars, rule ballI, drule set_dropWhile_subset, rule str_chars_char)

section \<open>Display and Debug\<close>

fun show_nat :: "nat \<Rightarrow> string" where
  "show_nat n =
     (if n < 10 then [char_of (48 + n)] else show_nat (n div 10) @ [char_of (48 + n mod 10)])"

declare show_nat.simps [simp del]

definition show_word :: "'a::len word \<Rightarrow> string" where
  "show_word w = show_nat (unat w)"

definition show_bool :: "bool \<Rightarrow> string" where
  "show_bool b = (if b then ''true'' else ''false'')"

text \<open>
  \<open>{:?}\<close> of a vector and of an option, from the rendering of an element. The escaping in
  \<open>{:?}\<close> of a \<open>str\<close> follows the Unicode tables of the standard library; definitions that
  print one take it as the argument \<open>dbg_str\<close>.
\<close>

fun join_comma :: "string list \<Rightarrow> string" where
  "join_comma [] = []"
| "join_comma [x] = x"
| "join_comma (x # y # xs) = x @ '', '' @ join_comma (y # xs)"

definition debug_vec :: "('a \<Rightarrow> string) \<Rightarrow> 'a list \<Rightarrow> string" where
  "debug_vec f xs = ''['' @ join_comma (map f xs) @ '']''"

definition debug_option :: "('a \<Rightarrow> string) \<Rightarrow> 'a option \<Rightarrow> string" where
  "debug_option f x = (case x of None \<Rightarrow> ''None'' | Some a \<Rightarrow> ''Some('' @ f a @ '')'')"

definition debug_struct :: "string \<Rightarrow> (string \<times> string) list \<Rightarrow> string" where
  "debug_struct name fields =
     name @ '' { '' @ join_comma (map (\<lambda>(f, v). f @ '': '' @ v) fields) @ '' }''"

end
