(* ===== verification/Binary_Message.thy ===== *)
theory Binary_Message
  imports Rust_String
begin

text \<open>
  The binary protocol of \<open>src/domain/binary_message.rs\<close>: message types, the client
  requests and daemon responses, packet framing (twelve-byte header with magic, type,
  flags and length), payload encoders and decoders, and the byte-level primitives. A
  \<open>Vec<u8>\<close> that a primitive appends to is passed in and returned; an unread slice is
  passed in and returned by a reader. \<open>usize\<close> is 64 bits wide, so \<open>HEADER_LEN +
  payload_len\<close> does not wrap and lengths are \<open>nat\<close>; the casts to \<open>u16\<close> and \<open>u32\<close>
  wrap as in the source.
\<close>

section \<open>Messages\<close>

definition MAGIC :: bytes where
  "MAGIC = [0x43, 0x42, 0x44, 0x31]"

definition HEADER_LEN :: nat where
  "HEADER_LEN = 12"

datatype MsgType =
    ClientHello | Ping | ListIfaces | Subscribe | Unsubscribe | SendFrame
  | HelloAck | Pong | Ifaces | Subscribed | Unsubscribed | SendAck | FrameEvent | Error

text \<open>The discriminants: \<open>msg_type as u16\<close>.\<close>

fun msg_type_code :: "MsgType \<Rightarrow> u16" where
  "msg_type_code MsgType.ClientHello = 101"
| "msg_type_code MsgType.Ping = 102"
| "msg_type_code MsgType.ListIfaces = 103"
| "msg_type_code MsgType.Subscribe = 104"
| "msg_type_code MsgType.Unsubscribe = 105"
| "msg_type_code MsgType.SendFrame = 106"
| "msg_type_code MsgType.HelloAck = 1"
| "msg_type_code MsgType.Pong = 2"
| "msg_type_code MsgType.Ifaces = 3"
| "msg_type_code MsgType.Subscribed = 4"
| "msg_type_code MsgType.Unsubscribed = 5"
| "msg_type_code MsgType.SendAck = 6"
| "msg_type_code MsgType.FrameEvent = 7"
| "msg_type_code MsgType.Error = 8"

datatype codec_error =
    UnknownMsgType u16
  | BadMagic
  | Eof
  | EofInString
  | Utf8
  | BadDataLen
  | GotClientMsgType MsgType
  | GotDaemonMsgType MsgType

definition from_u16 :: "u16 \<Rightarrow> (codec_error, MsgType) result" where
  "from_u16 v =
     (if v = 101 then Inr MsgType.ClientHello
      else if v = 102 then Inr MsgType.Ping
      else if v = 103 then Inr MsgType.ListIfaces
      else if v = 104 then Inr MsgType.Subscribe
      else if v = 105 then Inr MsgType.Unsubscribe
      else if v = 106 then Inr MsgType.SendFrame
      else if v = 1 then Inr MsgType.HelloAck
      else if v = 2 then Inr MsgType.Pong
      else if v = 3 then Inr MsgType.Ifaces
      else if v = 4 then Inr MsgType.Subscribed
      else if v = 5 then Inr MsgType.Unsubscribed
      else if v = 6 then Inr MsgType.SendAck
      else if v = 7 then Inr MsgType.FrameEvent
      else if v = 8 then Inr MsgType.Error
      else Inl (UnknownMsgType v))"

text \<open>\<open>SendFrame\<close>: iface, id, is\_fd, brs, esi, data.\<close>

datatype ClientBinaryRequest =
    ClientHello string string
  | Ping u64
  | ListIfaces
  | Subscribe "string list"
  | Unsubscribe
  | SendFrame string u32 bool bool bool bytes

text \<open>
  \<open>HelloAck\<close>: version, server\_name, features. \<open>SendAck\<close>: ok, error\_message.
  \<open>FrameEvent\<close>: ts\_ms, iface, dir, id, is\_fd, data.
\<close>

datatype DaemonBinaryResponse =
    HelloAck string string "string list"
  | Pong u64
  | Ifaces "string list"
  | Subscribed "string list"
  | Unsubscribed
  | SendAck bool "string option"
  | FrameEvent u64 string string u32 bool bytes
  | Error string

text \<open>The derived \<open>Debug\<close> of a request.\<close>

fun debug_binary_request :: "(string \<Rightarrow> string) \<Rightarrow> ClientBinaryRequest \<Rightarrow> string" where
  "debug_binary_request dbg_str (ClientBinaryRequest.ClientHello client protocol) =
     debug_struct ''ClientHello'' [(''client'', dbg_str client), (''protocol'', dbg_str protocol)]"
| "debug_binary_request dbg_str (ClientBinaryRequest.Ping i) = debug_struct ''Ping'' [(''id'', show_word i)]"
| "debug_binary_request dbg_str ClientBinaryRequest.ListIfaces = ''ListIfaces''"
| "debug_binary_request dbg_str (ClientBinaryRequest.Subscribe ifaces) =
     debug_struct ''Subscribe'' [(''ifaces'', debug_vec dbg_str ifaces)]"
| "debug_binary_request dbg_str ClientBinaryRequest.Unsubscribe = ''Unsubscribe''"
| "debug_binary_request dbg_str (ClientBinaryRequest.SendFrame iface i is_fd brs esi data) =
     debug_struct ''SendFrame''
       [(''iface'', dbg_str iface), (''id'', show_word i), (''is_fd'', show_bool is_fd),
        (''brs'', show_bool brs), (''esi'', show_bool esi), (''data'', debug_vec show_word data)]"

section \<open>Primitives\<close>

definition put_u16 :: "bytes \<Rightarrow> u16 \<Rightarrow> bytes" where
  "put_u16 out v = out @ u16_to_le_bytes v"

definition put_string :: "bytes \<Rightarrow> string \<Rightarrow> bytes" where
  "put_string out value =
     (let bs = as_bytes value;
          len = (word_of_nat (min (length bs) 65535) :: u16)
      in (out @ u16_to_le_bytes len) @ take (unat len) bs)"

definition get_u8 :: "(codec_error, u8) reader" where
  "get_u8 input = (if length input < 1 then Inl Eof else Inr (input ! 0, drop 1 input))"

definition get_u16 :: "(codec_error, u16) reader" where
  "get_u16 input =
     (if length input < 2 then Inl Eof
      else Inr (from_le_bytes [input ! 0, input ! 1], drop 2 input))"

definition get_u32 :: "(codec_error, u32) reader" where
  "get_u32 input =
     (if length input < 4 then Inl Eof
      else Inr (from_le_bytes [input ! 0, input ! 1, input ! 2, input ! 3], drop 4 input))"

definition get_u64 :: "(codec_error, u64) reader" where
  "get_u64 input =
     (if length input < 8 then Inl Eof
      else Inr (from_le_bytes [input ! 0, input ! 1, input ! 2, input ! 3,
                               input ! 4, input ! 5, input ! 6, input ! 7], drop 8 input))"

definition get_string :: "(codec_error, string) reader" where
  "get_string =
     bind_reader get_u16 (\<lambda>len input.
       if length input < unat len then Inl EofInString
       else case from_utf8 (take (unat len) input) of
              None \<Rightarrow> Inl Utf8
            | Some s \<Rightarrow> Inr (s, drop (unat len) input))"

text \<open>\<open>for _ in 0..count { items.push(get_string(&mut payload)?); }\<close>\<close>

primrec get_strings :: "nat \<Rightarrow> (codec_error, string list) reader" where
  "get_strings 0 = ret []"
| "get_strings (Suc n) =
     bind_reader get_string (\<lambda>s. bind_reader (get_strings n) (\<lambda>ss. ret (s # ss)))"

text \<open>The data bytes at the end of a payload: the length check and the copy.\<close>

definition get_data :: "nat \<Rightarrow> (codec_error, bytes) reader" where
  "get_data data_len input =
     (if length input < data_len then Inl BadDataLen
      else Inr (take data_len input, drop data_len input))"

section \<open>Packet framing\<close>

definition encode_packet :: "MsgType \<Rightarrow> bytes \<Rightarrow> (codec_error, bytes) result" where
  "encode_packet msg_type payload =
     (let payload_len = (word_of_nat (length payload) :: u32)
      in Inr (MAGIC @ u16_to_le_bytes (msg_type_code msg_type) @ u16_to_le_bytes 0
              @ u32_to_le_bytes payload_len @ payload))"

definition decode_packet :: "bytes \<Rightarrow> (codec_error, (MsgType \<times> bytes \<times> nat) option) result" where
  "decode_packet buffer =
     (if length buffer < HEADER_LEN then Inr None
      else if take 4 buffer \<noteq> MAGIC then Inl BadMagic
      else
        let msg_type_raw = (from_le_bytes [buffer ! 4, buffer ! 5] :: u16);
            payload_len =
              unat (from_le_bytes [buffer ! 8, buffer ! 9, buffer ! 10, buffer ! 11] :: u32);
            total_len = HEADER_LEN + payload_len
        in if length buffer < total_len then Inr None
           else bind_result (from_u16 msg_type_raw) (\<lambda>msg_type.
                  Inr (Some (msg_type, take (total_len - HEADER_LEN) (drop HEADER_LEN buffer),
                             total_len))))"

section \<open>Payloads of daemon responses\<close>

definition encode_daemon_payload ::
    "DaemonBinaryResponse \<Rightarrow> (codec_error, MsgType \<times> bytes) result" where
  "encode_daemon_payload resp =
     (case resp of
        DaemonBinaryResponse.HelloAck version server_name features \<Rightarrow>
          Inr (MsgType.HelloAck,
            foldl put_string
              (put_u16 (put_string (put_string [] version) server_name)
                (word_of_nat (length features)))
              features)
      | DaemonBinaryResponse.Pong i \<Rightarrow> Inr (MsgType.Pong, u64_to_le_bytes i)
      | DaemonBinaryResponse.Ifaces items \<Rightarrow>
          Inr (MsgType.Ifaces, foldl put_string (put_u16 [] (word_of_nat (length items))) items)
      | DaemonBinaryResponse.Subscribed ifaces \<Rightarrow>
          Inr (MsgType.Subscribed,
            foldl put_string (put_u16 [] (word_of_nat (length ifaces))) ifaces)
      | DaemonBinaryResponse.Unsubscribed \<Rightarrow> Inr (MsgType.Unsubscribed, [])
      | DaemonBinaryResponse.SendAck ok error_message \<Rightarrow>
          Inr (MsgType.SendAck,
            (case error_message of
               Some msg \<Rightarrow> put_string [of_bool ok] msg
             | None \<Rightarrow> put_string [of_bool ok] ''''))
      | DaemonBinaryResponse.FrameEvent ts_ms iface dir i is_fd data \<Rightarrow>
          Inr (MsgType.FrameEvent,
            put_u16
              (put_string (put_string (u64_to_le_bytes ts_ms) iface) dir
                @ u32_to_le_bytes i @ [of_bool is_fd])
              (word_of_nat (length data))
            @ data)
      | DaemonBinaryResponse.Error message \<Rightarrow> Inr (MsgType.Error, put_string [] message))"

definition decode_daemon_payload ::
    "MsgType \<Rightarrow> (codec_error, DaemonBinaryResponse) reader" where
  "decode_daemon_payload msg_type =
     (case msg_type of
        MsgType.HelloAck \<Rightarrow>
          bind_reader get_string (\<lambda>version.
          bind_reader get_string (\<lambda>server_name.
          bind_reader get_u16 (\<lambda>features_count.
          bind_reader (get_strings (unat features_count)) (\<lambda>features.
          ret (DaemonBinaryResponse.HelloAck version server_name features)))))
      | MsgType.Pong \<Rightarrow> bind_reader get_u64 (\<lambda>i. ret (DaemonBinaryResponse.Pong i))
      | MsgType.Ifaces \<Rightarrow>
          bind_reader get_u16 (\<lambda>count.
          bind_reader (get_strings (unat count)) (\<lambda>items.
          ret (DaemonBinaryResponse.Ifaces items)))
      | MsgType.Subscribed \<Rightarrow>
          bind_reader get_u16 (\<lambda>count.
          bind_reader (get_strings (unat count)) (\<lambda>ifaces.
          ret (DaemonBinaryResponse.Subscribed ifaces)))
      | MsgType.Unsubscribed \<Rightarrow> ret DaemonBinaryResponse.Unsubscribed
      | MsgType.SendAck \<Rightarrow>
          bind_reader get_u8 (\<lambda>ok.
          bind_reader get_string (\<lambda>error_text.
          ret (DaemonBinaryResponse.SendAck (ok \<noteq> 0)
                 (if error_text = [] then None else Some error_text))))
      | MsgType.FrameEvent \<Rightarrow>
          bind_reader get_u64 (\<lambda>ts_ms.
          bind_reader get_string (\<lambda>iface.
          bind_reader get_string (\<lambda>dir.
          bind_reader get_u32 (\<lambda>i.
          bind_reader get_u8 (\<lambda>is_fd.
          bind_reader get_u16 (\<lambda>data_len.
          bind_reader (get_data (unat data_len)) (\<lambda>data.
          ret (DaemonBinaryResponse.FrameEvent ts_ms iface dir i (is_fd \<noteq> 0) data))))))))
      | MsgType.Error \<Rightarrow> bind_reader get_string (\<lambda>message. ret (DaemonBinaryResponse.Error message))
      | _ \<Rightarrow> (\<lambda>_. Inl (GotClientMsgType msg_type)))"

section \<open>Payloads of client requests\<close>

definition encode_client_payload ::
    "ClientBinaryRequest \<Rightarrow> (codec_error, MsgType \<times> bytes) result" where
  "encode_client_payload req =
     (case req of
        ClientBinaryRequest.ClientHello client protocol \<Rightarrow>
          Inr (MsgType.ClientHello, put_string (put_string [] client) protocol)
      | ClientBinaryRequest.Ping i \<Rightarrow> Inr (MsgType.Ping, u64_to_le_bytes i)
      | ClientBinaryRequest.ListIfaces \<Rightarrow> Inr (MsgType.ListIfaces, [])
      | ClientBinaryRequest.Subscribe ifaces \<Rightarrow>
          Inr (MsgType.Subscribe,
            foldl put_string (put_u16 [] (word_of_nat (length ifaces))) ifaces)
      | ClientBinaryRequest.Unsubscribe \<Rightarrow> Inr (MsgType.Unsubscribe, [])
      | ClientBinaryRequest.SendFrame iface i is_fd brs esi data \<Rightarrow>
          Inr (MsgType.SendFrame,
            put_u16
              (put_string [] iface
                @ u32_to_le_bytes i @ [of_bool is_fd] @ [of_bool brs] @ [of_bool esi])
              (word_of_nat (length data))
            @ data))"

definition decode_client_payload ::
    "MsgType \<Rightarrow> (codec_error, ClientBinaryRequest) reader" where
  "decode_client_payload msg_type =
     (case msg_type of
        MsgType.ClientHello \<Rightarrow>
          bind_reader get_string (\<lambda>client.
          bind_reader get_string (\<lambda>protocol.
          ret (ClientBinaryRequest.ClientHello client protocol)))
      | MsgType.Ping \<Rightarrow> bind_reader get_u64 (\<lambda>i. ret (ClientBinaryRequest.Ping i))
      | MsgType.ListIfaces \<Rightarrow> ret ClientBinaryRequest.ListIfaces
      | MsgType.Subscribe \<Rightarrow>
          bind_reader get_u16 (\<lambda>count.
          bind_reader (get_strings (unat count)) (\<lambda>ifaces.
          ret (ClientBinaryRequest.Subscribe ifaces)))
      | MsgType.Unsubscribe \<Rightarrow> ret ClientBinaryRequest.Unsubscribe
      | MsgType.SendFrame \<Rightarrow>
          bind_reader get_string (\<lambda>iface.
          bind_reader get_u32 (\<lambda>i.
          bind_reader get_u8 (\<lambda>is_fd.
          bind_reader get_u8 (\<lambda>brs.
          bind_reader get_u8 (\<lambda>esi.
          bind_reader get_u16 (\<lambda>data_len.
          bind_reader (get_data (unat data_len)) (\<lambda>data.
          ret (ClientBinaryRequest.SendFrame iface i (is_fd \<noteq> 0) (brs \<noteq> 0) (esi \<noteq> 0) data))))))))
      | _ \<Rightarrow> (\<lambda>_. Inl (GotDaemonMsgType msg_type)))"

section \<open>Framed messages\<close>

definition encode_daemon :: "DaemonBinaryResponse \<Rightarrow> (codec_error, bytes) result" where
  "encode_daemon resp =
     bind_result (encode_daemon_payload resp) (\<lambda>(msg_type, payload). encode_packet msg_type payload)"

definition encode_client :: "ClientBinaryRequest \<Rightarrow> (codec_error, bytes) result" where
  "encode_client req =
     bind_result (encode_client_payload req) (\<lambda>(msg_type, payload). encode_packet msg_type payload)"

definition decode_client_from ::
    "bytes \<Rightarrow> (codec_error, (ClientBinaryRequest \<times> nat) option) result" where
  "decode_client_from buffer =
     bind_result (decode_packet buffer) (\<lambda>packet.
       case packet of
         None \<Rightarrow> Inr None
       | Some (msg_type, payload, consumed_bytes) \<Rightarrow>
           bind_result (decode_client_payload msg_type payload) (\<lambda>(request, _).
             Inr (Some (request, consumed_bytes))))"

definition decode_daemon_from ::
    "bytes \<Rightarrow> (codec_error, (DaemonBinaryResponse \<times> nat) option) result" where
  "decode_daemon_from buffer =
     bind_result (decode_packet buffer) (\<lambda>packet.
       case packet of
         None \<Rightarrow> Inr None
       | Some (msg_type, payload, consumed_bytes) \<Rightarrow>
           bind_result (decode_daemon_payload msg_type payload) (\<lambda>(response, _).
             Inr (Some (response, consumed_bytes))))"

section \<open>Message types\<close>

lemma from_u16_msg_type_code [simp]: "from_u16 (msg_type_code t) = Inr t"
  by (cases t) (simp_all add: from_u16_def)

lemma from_u16_Inr: "from_u16 v = Inr t \<Longrightarrow> v = msg_type_code t"
  by (auto simp: from_u16_def split: if_splits)

section \<open>Primitives read back what they wrote\<close>

lemma get_u8_Cons [codec_simps]: "get_u8 (b # rest) = Inr (b, rest)"
  by (simp add: get_u8_def)

lemma get_u16_append [codec_simps]:
  "length xs = 2 \<Longrightarrow> get_u16 (xs @ rest) = Inr (from_le_bytes xs, rest)"
  by (auto simp: get_u16_def length_Suc_conv eval_nat_numeral)

lemma get_u32_append [codec_simps]:
  "length xs = 4 \<Longrightarrow> get_u32 (xs @ rest) = Inr (from_le_bytes xs, rest)"
  by (auto simp: get_u32_def length_Suc_conv eval_nat_numeral)

lemma get_u64_append [codec_simps]:
  "length xs = 8 \<Longrightarrow> get_u64 (xs @ rest) = Inr (from_le_bytes xs, rest)"
  by (auto simp: get_u64_def length_Suc_conv eval_nat_numeral)

lemma parses_get_u8: "parses get_u8 [b] b"
  by (simp add: parses_def get_u8_Cons)

lemma parses_get_u16: "parses get_u16 (u16_to_le_bytes v) v"
  and parses_get_u32: "parses get_u32 (u32_to_le_bytes w) w"
  and parses_get_u64: "parses get_u64 (u64_to_le_bytes x) x"
  by (simp_all add: parses_def codec_simps)

lemma parses_get_data: "parses (get_data (length data)) data data"
  by (simp add: parses_def get_data_def)

text \<open>Strings that fit the sixteen-bit length field.\<close>

definition string_ok :: "string \<Rightarrow> bool" where
  "string_ok s \<longleftrightarrow> utf8_ok s \<and> length s \<le> 65535"

lemma string_ok_ascii:
  "list_all (\<lambda>c. of_char c < (128 :: nat)) s \<Longrightarrow> length s \<le> 65535 \<Longrightarrow> string_ok s"
  by (simp add: string_ok_def utf8_ok_ascii)

lemma unat_word_of_nat_u16: "n \<le> 65535 \<Longrightarrow> unat (word_of_nat n :: u16) = n"
  by (simp add: unat_of_nat_small)

lemma put_string_Nil: "put_string out s = out @ put_string [] s"
  by (simp add: put_string_def Let_def)

lemma put_string_short:
  "length s \<le> 65535 \<Longrightarrow>
   put_string [] s = u16_to_le_bytes (word_of_nat (length s)) @ as_bytes s"
  by (simp add: put_string_def Let_def unat_word_of_nat_u16)

lemma length_put_string: "length (put_string [] s) = 2 + min (length s) 65535"
  by (simp add: put_string_def Let_def unat_word_of_nat_u16)

lemma length_put_string_ok: "string_ok s \<Longrightarrow> length (put_string [] s) = 2 + length s"
  by (simp add: length_put_string string_ok_def)

lemma parses_get_string: "string_ok s \<Longrightarrow> parses get_string (put_string [] s) s"
  by (auto simp: parses_def string_ok_def put_string_short get_string_def bind_reader_def
      get_u16_append unat_word_of_nat_u16)

lemma foldl_put_string: "foldl put_string out ss = out @ concat (map (put_string []) ss)"
proof (induction ss arbitrary: out)
  case (Cons s ss)
  show ?case by (simp add: Cons put_string_Nil [of out])
qed simp

lemma parses_get_strings:
  "\<forall>s\<in>set ss. string_ok s \<Longrightarrow>
   parses (get_strings (length ss)) (concat (map (put_string []) ss)) ss"
proof (induction ss)
  case (Cons s ss)
  then have "parses (bind_reader (get_strings (length ss)) (\<lambda>ts. ret (s # ts)))
      (concat (map (put_string []) ss) @ []) (s # ss)"
    by (intro parses_bind) auto
  with Cons.prems show ?case by (auto intro!: parses_bind parses_get_string)
qed auto

section \<open>What a successful read consumed\<close>

lemma get_u16_Inr: "get_u16 input = Inr (v, rest) \<Longrightarrow> input = u16_to_le_bytes v @ rest"
proof -
  assume *: "get_u16 input = Inr (v, rest)"
  then have "length (take 2 input) = 2" by (auto simp: get_u16_def split: if_splits)
  then have "u16_to_le_bytes (from_le_bytes (take 2 input) :: u16) = take 2 input"
    using le_bytes_from_le_bytes [of "take 2 input", where 'a = 16] by simp
  moreover have "get_u16 (take 2 input @ drop 2 input) = Inr (from_le_bytes (take 2 input), drop 2 input)"
    using \<open>length (take 2 input) = 2\<close> by (rule get_u16_append)
  ultimately show ?thesis using * by simp
qed

lemma get_string_Inr:
  "get_string input = Inr (s, rest) \<Longrightarrow> string_ok s \<and> input = put_string [] s @ rest"
proof -
  assume "get_string input = Inr (s, rest)"
  then obtain len tail where len: "get_u16 input = Inr (len, tail)"
    and s: "from_utf8 (take (unat len) tail) = Some s" "unat len \<le> length tail"
      "rest = drop (unat len) tail"
    by (auto simp: get_string_def bind_reader_def split: sum.splits if_splits option.splits)
  then have bytes: "as_bytes s = take (unat len) tail" and "utf8_ok s"
    by (auto simp: from_utf8_Some)
  then have "length s = unat len" using s(2) by (metis length_as_bytes length_take min.absorb2)
  moreover have "unat len \<le> 65535" by simp
  moreover have "word_of_nat (unat len) = len" by simp
  ultimately show ?thesis
    using bytes \<open>utf8_ok s\<close> get_u16_Inr [OF len] s(3)
    by (auto simp: string_ok_def put_string_short)
qed

lemma get_strings_Inr:
  "get_strings n input = Inr (ss, rest) \<Longrightarrow>
   length ss = n \<and> (\<forall>s\<in>set ss. string_ok s) \<and> input = concat (map (put_string []) ss) @ rest"
proof (induction n arbitrary: input ss)
  case (Suc n)
  then obtain s ss' mid where "get_string input = Inr (s, mid)"
    and "get_strings n mid = Inr (ss', rest)" and "ss = s # ss'"
    by (auto simp: bind_reader_eq_Inr)
  with Suc.IH [of mid ss'] get_string_Inr [of input s mid] show ?case by auto
qed simp

lemma get_data_Inr:
  "get_data n input = Inr (data, rest) \<Longrightarrow> length data = n \<and> input = data @ rest"
  by (auto simp: get_data_def split: if_splits)

lemma get_u32_Inr_length: "get_u32 input = Inr (v, rest) \<Longrightarrow> length input = 4 + length rest"
  and get_u64_Inr_length: "get_u64 input = Inr (w, rest) \<Longrightarrow> length input = 8 + length rest"
  and get_u8_Inr_length: "get_u8 input = Inr (b, rest) \<Longrightarrow> length input = 1 + length rest"
  by (auto simp: get_u32_def get_u64_def get_u8_def split: if_splits)

section \<open>Well-formed messages\<close>

text \<open>
  The messages the wire format can carry: every string valid and at most 65535 bytes,
  every list and data field at most 65535 long, the payload shorter than \<open>2 ^ 32\<close> bytes,
  and no empty error text in \<open>SendAck\<close> (it stands for \<open>None\<close>).
\<close>

definition strings_ok :: "nat \<Rightarrow> string list \<Rightarrow> bool" where
  "strings_ok k ss \<longleftrightarrow>
     length ss \<le> 65535 \<and> (\<forall>s\<in>set ss. string_ok s)
     \<and> k + length (concat (map (put_string []) ss)) < 2 ^ 32"

definition client_ok :: "ClientBinaryRequest \<Rightarrow> bool" where
  "client_ok req \<longleftrightarrow>
     (case req of
        ClientBinaryRequest.ClientHello client protocol \<Rightarrow> string_ok client \<and> string_ok protocol
      | ClientBinaryRequest.Subscribe ifaces \<Rightarrow> strings_ok 2 ifaces
      | ClientBinaryRequest.SendFrame iface _ _ _ _ data \<Rightarrow> string_ok iface \<and> length data \<le> 65535
      | _ \<Rightarrow> True)"

definition daemon_ok :: "DaemonBinaryResponse \<Rightarrow> bool" where
  "daemon_ok resp \<longleftrightarrow>
     (case resp of
        DaemonBinaryResponse.HelloAck version server_name features \<Rightarrow>
          string_ok version \<and> string_ok server_name
          \<and> strings_ok (6 + length version + length server_name) features
      | DaemonBinaryResponse.Ifaces items \<Rightarrow> strings_ok 2 items
      | DaemonBinaryResponse.Subscribed ifaces \<Rightarrow> strings_ok 2 ifaces
      | DaemonBinaryResponse.SendAck _ error_message \<Rightarrow>
          (case error_message of None \<Rightarrow> True | Some msg \<Rightarrow> msg \<noteq> [] \<and> string_ok msg)
      | DaemonBinaryResponse.FrameEvent _ iface dir _ _ data \<Rightarrow>
          string_ok iface \<and> string_ok dir \<and> length data \<le> 65535
      | DaemonBinaryResponse.Error message \<Rightarrow> string_ok message
      | _ \<Rightarrow> True)"

lemma string_ok_Nil [simp]: "string_ok []"
  by (simp add: string_ok_def)

lemma get_u8_step [codec_simps]: "bind_reader get_u8 f (b # rest) = f b rest"
  by (simp add: bind_reader_def get_u8_Cons)

lemmas get_u16_step [codec_simps] = parses_step [OF parses_get_u16] parses_step_nil [OF parses_get_u16]
lemmas get_u32_step [codec_simps] = parses_step [OF parses_get_u32]
lemmas get_u64_step [codec_simps] = parses_step [OF parses_get_u64] parses_step_nil [OF parses_get_u64]
lemmas get_string_step [codec_simps] =
  parses_step [OF parses_get_string] parses_step_nil [OF parses_get_string]

lemma get_strings_step [codec_simps]:
  assumes "strings_ok k ss"
  shows "bind_reader (get_strings (unat (word_of_nat (length ss) :: u16))) f
           (concat (map (put_string []) ss) @ rest) = f ss rest"
  using assms parses_step [OF parses_get_strings, of ss]
  by (simp add: strings_ok_def unat_word_of_nat_u16)

lemma get_data_step [codec_simps]:
  "length data \<le> 65535 \<Longrightarrow>
   bind_reader (get_data (unat (word_of_nat (length data) :: u16))) f (data @ rest) = f data rest"
  using parses_step [OF parses_get_data] by (simp add: unat_word_of_nat_u16)

lemma put_string_prefix [codec_simps]:
  "put_string (b # out) s = (b # out) @ put_string [] s"
  "put_string (out @ out') s = (out @ out') @ put_string [] s"
  "put_string (put_string [] t) s = put_string [] t @ put_string [] s"
  "put_string (le_bytes n w) s = le_bytes n w @ put_string [] s"
  by (rule put_string_Nil)+

lemmas [codec_simps] = foldl_put_string put_u16_def parses_def append_assoc

lemma decode_client_payload_encode:
  assumes "client_ok req" and "encode_client_payload req = Inr (t, payload)"
  shows "parses (decode_client_payload t) payload req"
  using assms
  by (cases req)
    (auto simp: client_ok_def encode_client_payload_def decode_client_payload_def codec_simps)

lemma decode_daemon_payload_encode:
  assumes "daemon_ok resp" and "encode_daemon_payload resp = Inr (t, payload)"
  shows "parses (decode_daemon_payload t) payload resp"
  using assms
  by (cases resp)
    (auto simp: daemon_ok_def encode_daemon_payload_def decode_daemon_payload_def codec_simps
      split: option.splits)

section \<open>Framing\<close>

definition packet :: "MsgType \<Rightarrow> bytes \<Rightarrow> bytes" where
  "packet t payload =
     MAGIC @ u16_to_le_bytes (msg_type_code t) @ u16_to_le_bytes 0
     @ u32_to_le_bytes (word_of_nat (length payload)) @ payload"

lemma encode_packet_eq: "encode_packet t payload = Inr (packet t payload)"
  by (simp add: encode_packet_def packet_def Let_def)

lemma length_MAGIC [simp]: "length MAGIC = 4"
  by (simp add: MAGIC_def)

lemma length_packet [simp]: "length (packet t payload) = HEADER_LEN + length payload"
  by (simp add: packet_def HEADER_LEN_def)

lemma decode_packet_frame:
  assumes "length tb = 2" and "length fb = 2" and "length lb = 4"
  shows "decode_packet (MAGIC @ tb @ fb @ lb @ body) =
    (let n = unat (from_le_bytes lb :: u32)
     in if length body < n then Inr None
        else bind_result (from_u16 (from_le_bytes tb)) (\<lambda>t. Inr (Some (t, take n body, HEADER_LEN + n))))"
proof -
  obtain t0 t1 f0 f1 l0 l1 l2 l3
    where "tb = [t0, t1]" "fb = [f0, f1]" "lb = [l0, l1, l2, l3]"
    using assms by (auto simp: length_Suc_conv eval_nat_numeral)
  then show ?thesis by (simp add: decode_packet_def MAGIC_def HEADER_LEN_def Let_def eval_nat_numeral)
qed

lemma decode_packet_packet:
  "length payload < 2 ^ 32 \<Longrightarrow>
   decode_packet (packet t payload @ rest) = Inr (Some (t, payload, HEADER_LEN + length payload))"
  by (simp add: packet_def decode_packet_frame unat_of_nat_small Let_def)

lemma decode_packet_short: "length buffer < HEADER_LEN \<Longrightarrow> decode_packet buffer = Inr None"
  by (simp add: decode_packet_def)

lemma decode_packet_prefix:
  assumes "length payload < 2 ^ 32" and "k < HEADER_LEN + length payload"
  shows "decode_packet (take k (packet t payload)) = Inr None"
proof (cases "k < HEADER_LEN")
  case True
  then show ?thesis by (simp add: decode_packet_short)
next
  case False
  then have "take k (packet t payload) =
      MAGIC @ u16_to_le_bytes (msg_type_code t) @ u16_to_le_bytes 0
      @ u32_to_le_bytes (word_of_nat (length payload)) @ take (k - HEADER_LEN) payload"
    by (simp add: packet_def HEADER_LEN_def)
  moreover have "length (take (k - HEADER_LEN) payload) < length payload"
    using assms(2) False by (auto simp: min_def)
  ultimately show ?thesis
    using assms(1) by (simp add: decode_packet_frame unat_of_nat_small Let_def)
qed

lemma decode_packet_append_Some:
  "decode_packet buffer = Inr (Some r) \<Longrightarrow> decode_packet (buffer @ more) = Inr (Some r)"
  by (auto simp: decode_packet_def Let_def nth_append HEADER_LEN_def bind_result_eq_Inr
      split: if_splits)

lemma decode_packet_append_Inl:
  "decode_packet buffer = Inl e \<Longrightarrow> decode_packet (buffer @ more) = Inl e"
  by (auto simp: decode_packet_def Let_def nth_append HEADER_LEN_def split: if_splits
      simp del: from_le_bytes.simps)

lemma decode_packet_Some:
  assumes "decode_packet buffer = Inr (Some (t, payload, n))"
  shows "n = HEADER_LEN + length payload" and "n \<le> length buffer"
    and "payload = take (n - HEADER_LEN) (drop HEADER_LEN buffer)"
    and "length payload < 2 ^ 32"
    and "take 4 buffer = MAGIC"
    and "from_u16 (from_le_bytes [buffer ! 4, buffer ! 5]) = Inr t"
proof -
  let ?m = "unat (from_le_bytes [buffer ! 8, buffer ! 9, buffer ! 10, buffer ! 11] :: u32)"
  have "?m < 2 ^ 32" by (rule unat_u32_less)
  moreover have eq: "n = HEADER_LEN + ?m" "HEADER_LEN + ?m \<le> length buffer"
      "payload = take ?m (drop HEADER_LEN buffer)" "take 4 buffer = MAGIC"
      "from_u16 (from_le_bytes [buffer ! 4, buffer ! 5]) = Inr t"
    using assms by (auto simp: decode_packet_def Let_def bind_result_eq_Inr split: if_splits
        simp del: from_le_bytes.simps)
  moreover have "length payload = ?m" using eq by simp
  ultimately show "n = HEADER_LEN + length payload" and "n \<le> length buffer"
    and "payload = take (n - HEADER_LEN) (drop HEADER_LEN buffer)"
    and "length payload < 2 ^ 32" and "take 4 buffer = MAGIC"
    and "from_u16 (from_le_bytes [buffer ! 4, buffer ! 5]) = Inr t"
    by simp_all
qed

lemma decode_packet_take:
  assumes "decode_packet buffer = Inr (Some (t, payload, n))"
  shows "decode_packet (take n buffer) = Inr (Some (t, payload, n))"
proof -
  let ?m = "unat (from_le_bytes [buffer ! 8, buffer ! 9, buffer ! 10, buffer ! 11] :: u32)"
  have n: "n = HEADER_LEN + ?m" "n \<le> length buffer"
    using assms by (auto simp: decode_packet_def Let_def bind_result_eq_Inr split: if_splits
        simp del: from_le_bytes.simps)
  then have nth: "take n buffer ! k = buffer ! k" if "k < HEADER_LEN" for k using that by simp
  have "take 4 (take n buffer) = take 4 buffer" using n by (simp add: HEADER_LEN_def min_def)
  with assms n show ?thesis
    unfolding decode_packet_def
    by (auto simp: Let_def nth HEADER_LEN_def drop_take bind_result_eq_Inr simp del: from_le_bytes.simps
        split: if_splits)
qed

end
