(* ===== verification/Codec_Stream.thy ===== *)
theory Codec_Stream
  imports Binary_Message
begin

text \<open>
  Reading a byte stream packet by packet. \<open>drain_requests\<close> is the loop both binary
  transports run on their receive buffer (\<open>while let Some((request, consumed)) =
  decode_client_from(&receive_buffer)?\<close>, then \<open>drain(0..consumed)\<close> and the dispatch of the
  request). The locale \<open>stream_decoder\<close> states what the loop relies on of a decoder, its
  extension \<open>framed_codec\<close> adds the encoder, and both are interpreted on the decoders and
  encoders of \<open>Binary_Message\<close>.
\<close>

section \<open>Laws of the message decoders\<close>

lemma decode_client_from_Some_iff:
  "decode_client_from buf = Inr (Some (m, n)) \<longleftrightarrow>
     (\<exists>t payload rest. decode_packet buf = Inr (Some (t, payload, n))
        \<and> decode_client_payload t payload = Inr (m, rest))"
proof (cases "decode_packet buf")
  case (Inr r)
  then show ?thesis
    by (cases r) (auto simp: decode_client_from_def bind_result_eq_Inr)
qed (simp add: decode_client_from_def)

lemma decode_client_from_bounds:
  assumes "decode_client_from buf = Inr (Some (m, n))"
  shows "HEADER_LEN \<le> n" and "n \<le> length buf" and "0 < n"
proof -
  obtain t payload where "decode_packet buf = Inr (Some (t, payload, n))"
    using assms by (auto simp: decode_client_from_Some_iff)
  from decode_packet_Some(1,2) [OF this] show "HEADER_LEN \<le> n" and "n \<le> length buf" and "0 < n"
    by (simp_all add: HEADER_LEN_def)
qed

lemma decode_client_from_shrinks:
  assumes "decode_client_from buf = Inr (Some (m, n))"
  shows "length buf - n < length buf"
  using decode_client_from_bounds [OF assms] by (simp add: HEADER_LEN_def)

lemma decode_client_from_more_Some:
  "decode_client_from buf = Inr (Some r) \<Longrightarrow> decode_client_from (buf @ more) = Inr (Some r)"
  by (cases r) (auto simp: decode_client_from_Some_iff dest: decode_packet_append_Some [of _ _ more])

lemma decode_client_from_take:
  "decode_client_from buf = Inr (Some (m, n)) \<Longrightarrow> decode_client_from (take n buf) = Inr (Some (m, n))"
  by (auto simp: decode_client_from_Some_iff dest: decode_packet_take)

lemma decode_daemon_from_Some_iff:
  "decode_daemon_from buf = Inr (Some (m, n)) \<longleftrightarrow>
     (\<exists>t payload rest. decode_packet buf = Inr (Some (t, payload, n))
        \<and> decode_daemon_payload t payload = Inr (m, rest))"
proof (cases "decode_packet buf")
  case (Inr r)
  then show ?thesis
    by (cases r) (auto simp: decode_daemon_from_def bind_result_eq_Inr)
qed (simp add: decode_daemon_from_def)

lemma decode_daemon_from_bounds:
  assumes "decode_daemon_from buf = Inr (Some (m, n))"
  shows "HEADER_LEN \<le> n" and "n \<le> length buf" and "0 < n"
proof -
  obtain t payload where "decode_packet buf = Inr (Some (t, payload, n))"
    using assms by (auto simp: decode_daemon_from_Some_iff)
  from decode_packet_Some(1,2) [OF this] show "HEADER_LEN \<le> n" and "n \<le> length buf" and "0 < n"
    by (simp_all add: HEADER_LEN_def)
qed

lemma decode_daemon_from_shrinks:
  assumes "decode_daemon_from buf = Inr (Some (m, n))"
  shows "length buf - n < length buf"
  using decode_daemon_from_bounds [OF assms] by (simp add: HEADER_LEN_def)

lemma decode_daemon_from_more_Some:
  "decode_daemon_from buf = Inr (Some r) \<Longrightarrow> decode_daemon_from (buf @ more) = Inr (Some r)"
  by (cases r) (auto simp: decode_daemon_from_Some_iff dest: decode_packet_append_Some [of _ _ more])

lemma decode_daemon_from_take:
  "decode_daemon_from buf = Inr (Some (m, n)) \<Longrightarrow> decode_daemon_from (take n buf) = Inr (Some (m, n))"
  by (auto simp: decode_daemon_from_Some_iff dest: decode_packet_take)

lemma decode_client_from_more_Inl:
  assumes "decode_client_from buf = Inl e"
  shows "decode_client_from (buf @ more) = Inl e"
proof (cases "decode_packet buf")
  case (Inl d)
  with assms show ?thesis by (simp add: decode_client_from_def decode_packet_append_Inl)
next
  case (Inr p)
  with assms obtain r where "p = Some r" by (cases p) (simp_all add: decode_client_from_def)
  with Inr assms show ?thesis
    using decode_packet_append_Some [of buf r more] by (simp add: decode_client_from_def)
qed

lemma decode_daemon_from_more_Inl:
  assumes "decode_daemon_from buf = Inl e"
  shows "decode_daemon_from (buf @ more) = Inl e"
proof (cases "decode_packet buf")
  case (Inl d)
  with assms show ?thesis by (simp add: decode_daemon_from_def decode_packet_append_Inl)
next
  case (Inr p)
  with assms obtain r where "p = Some r" by (cases p) (simp_all add: decode_daemon_from_def)
  with Inr assms show ?thesis
    using decode_packet_append_Some [of buf r more] by (simp add: decode_daemon_from_def)
qed

section \<open>The packet loop\<close>

text \<open>
  The result is the decoding error that ended the session, if any, the bytes left in the
  buffer, and the state the handler reached.
\<close>

function drain_requests ::
    "(ClientBinaryRequest \<Rightarrow> 's \<Rightarrow> 's) \<Rightarrow> bytes \<Rightarrow> 's \<Rightarrow> codec_error option \<times> bytes \<times> 's" where
  "drain_requests h buf s =
     (case decode_client_from buf of
        Inl e \<Rightarrow> (Some e, buf, s)
      | Inr None \<Rightarrow> (None, buf, s)
      | Inr (Some (request, consumed)) \<Rightarrow> drain_requests h (drop consumed buf) (h request s))"
  by pat_completeness auto
termination
  by (relation "measure (\<lambda>(h, buf, s). length buf)")
    (auto dest: decode_client_from_shrinks)

declare drain_requests.simps [simp del]

text \<open>The messages alone: what a buffer holds, the error that ends it, the bytes left.\<close>

function requests_in :: "bytes \<Rightarrow> codec_error option \<times> bytes \<times> ClientBinaryRequest list" where
  "requests_in buf =
     (case decode_client_from buf of
        Inl e \<Rightarrow> (Some e, buf, [])
      | Inr None \<Rightarrow> (None, buf, [])
      | Inr (Some (m, n)) \<Rightarrow> (case requests_in (drop n buf) of (e, rest, ms) \<Rightarrow> (e, rest, m # ms)))"
  by pat_completeness auto
termination
  by (relation "measure length") (auto dest: decode_client_from_shrinks)

declare requests_in.simps [simp del]

text \<open>The same loop over daemon responses: what a client of the protocol reads off the stream.\<close>

function drain_responses ::
    "(DaemonBinaryResponse \<Rightarrow> 's \<Rightarrow> 's) \<Rightarrow> bytes \<Rightarrow> 's \<Rightarrow> codec_error option \<times> bytes \<times> 's" where
  "drain_responses h buf s =
     (case decode_daemon_from buf of
        Inl e \<Rightarrow> (Some e, buf, s)
      | Inr None \<Rightarrow> (None, buf, s)
      | Inr (Some (response, consumed)) \<Rightarrow> drain_responses h (drop consumed buf) (h response s))"
  by pat_completeness auto
termination
  by (relation "measure (\<lambda>(h, buf, s). length buf)")
    (auto dest: decode_daemon_from_shrinks)

declare drain_responses.simps [simp del]

text \<open>The messages alone: what a buffer holds, the error that ends it, the bytes left.\<close>

function responses_in :: "bytes \<Rightarrow> codec_error option \<times> bytes \<times> DaemonBinaryResponse list" where
  "responses_in buf =
     (case decode_daemon_from buf of
        Inl e \<Rightarrow> (Some e, buf, [])
      | Inr None \<Rightarrow> (None, buf, [])
      | Inr (Some (m, n)) \<Rightarrow> (case responses_in (drop n buf) of (e, rest, ms) \<Rightarrow> (e, rest, m # ms)))"
  by pat_completeness auto
termination
  by (relation "measure length") (auto dest: decode_daemon_from_shrinks)

declare responses_in.simps [simp del]

text \<open>Reads that arrive in chunks: each is appended to the buffer and the loop runs.\<close>

fun feed :: "(bytes \<Rightarrow> 's \<Rightarrow> 'e option \<times> bytes \<times> 's) \<Rightarrow> bytes list \<Rightarrow> bytes \<Rightarrow> 's
    \<Rightarrow> 'e option \<times> bytes \<times> 's" where
  "feed run [] buf s = (None, buf, s)"
| "feed run (chunk # chunks) buf s =
     (case run (buf @ chunk) s of
        (Some e, rest, s') \<Rightarrow> (Some e, rest, s')
      | (None, rest, s') \<Rightarrow> feed run chunks rest s')"

section \<open>The interface\<close>

locale stream_decoder =
  fixes dec :: "bytes \<Rightarrow> ('e, ('m \<times> nat) option) result"
    and msgs :: "bytes \<Rightarrow> 'e option \<times> bytes \<times> 'm list"
    and run :: "('m \<Rightarrow> 's \<Rightarrow> 's) \<Rightarrow> bytes \<Rightarrow> 's \<Rightarrow> 'e option \<times> bytes \<times> 's"
  assumes dec_bounds: "dec buf = Inr (Some (m, n)) \<Longrightarrow> 0 < n \<and> n \<le> length buf"
    and dec_more_Some: "dec buf = Inr (Some r) \<Longrightarrow> dec (buf @ more) = Inr (Some r)"
    and dec_take: "dec buf = Inr (Some (m, n)) \<Longrightarrow> dec (take n buf) = Inr (Some (m, n))"
    and dec_more_Inl: "dec buf = Inl e \<Longrightarrow> dec (buf @ more) = Inl e"
    and msgs_unfold: "msgs buf =
      (case dec buf of
         Inl e \<Rightarrow> (Some e, buf, [])
       | Inr None \<Rightarrow> (None, buf, [])
       | Inr (Some (m, n)) \<Rightarrow> (case msgs (drop n buf) of (e, rest, ms) \<Rightarrow> (e, rest, m # ms)))"
    and run_unfold: "run h buf s =
      (case dec buf of
         Inl e \<Rightarrow> (Some e, buf, s)
       | Inr None \<Rightarrow> (None, buf, s)
       | Inr (Some (m, n)) \<Rightarrow> run h (drop n buf) (h m s))"
begin

lemma run_Inl: "dec buf = Inl e \<Longrightarrow> run h buf s = (Some e, buf, s)"
  by (subst run_unfold) simp

lemma run_None: "dec buf = Inr None \<Longrightarrow> run h buf s = (None, buf, s)"
  by (subst run_unfold) simp

lemma run_Some: "dec buf = Inr (Some (m, n)) \<Longrightarrow> run h buf s = run h (drop n buf) (h m s)"
  by (subst run_unfold) simp

lemma stream_cases [case_names Error Wait Message]:
  obtains e where "dec buf = Inl e"
  | "dec buf = Inr None"
  | m n where "dec buf = Inr (Some (m, n))" and "length (drop n buf) < length buf"
      and "n \<le> length buf"
proof (cases "dec buf")
  case (Inr r)
  then show ?thesis using that dec_bounds [of buf] by (cases r) fastforce+
qed (use that in blast)

text \<open>Running over a longer buffer is running over the first part, then going on with what it left.\<close>

lemma run_append:
  "run h (buf @ more) s =
     (case run h buf s of
        (Some e, rest, s') \<Rightarrow> (Some e, rest @ more, s')
      | (None, rest, s') \<Rightarrow> run h (rest @ more) s')"
proof (induction "length buf" arbitrary: buf s rule: less_induct)
  case less
  show ?case
  proof (cases buf rule: stream_cases)
    case (Error e)
    then show ?thesis by (simp add: run_Inl dec_more_Inl)
  next
    case Wait
    then show ?thesis by (simp add: run_None)
  next
    case (Message m n)
    then have "run h (buf @ more) s = run h (drop n buf @ more) (h m s)"
      by (simp add: run_Some [OF dec_more_Some])
    with Message less show ?thesis by (simp add: run_Some)
  qed
qed

lemma run_stops: "run h buf s = (None, rest, s') \<Longrightarrow> dec rest = Inr None"
proof (induction "length buf" arbitrary: buf s rule: less_induct)
  case less
  then show ?case
  proof (cases buf rule: stream_cases)
    case (Message m n)
    with less.prems have "run h (drop n buf) (h m s) = (None, rest, s')" by (simp add: run_Some)
    with Message(2) show ?thesis by (rule less.hyps)
  qed (auto simp: run_Inl run_None)
qed

text \<open>The handler sees the messages the loop decodes, in order; decoding does not depend on it.\<close>

lemma run_msgs: "run h buf s = (case msgs buf of (e, rest, ms) \<Rightarrow> (e, rest, fold h ms s))"
proof (induction "length buf" arbitrary: buf s rule: less_induct)
  case less
  show ?case
  proof (cases buf rule: stream_cases)
    case (Message m n)
    then have "msgs buf = (case msgs (drop n buf) of (e, rest, ms) \<Rightarrow> (e, rest, m # ms))"
      by (subst msgs_unfold) simp
    with Message less [of "drop n buf" "h m s"] show ?thesis by (simp add: run_Some split: prod.splits)
  qed (simp_all add: run_Inl run_None msgs_unfold [of buf])
qed

lemma msgs_append:
  "msgs (buf @ more) =
     (case msgs buf of
        (Some e, rest, ms) \<Rightarrow> (Some e, rest @ more, ms)
      | (None, rest, ms) \<Rightarrow> (case msgs (rest @ more) of (e, rest', ms') \<Rightarrow> (e, rest', ms @ ms')))"
proof (induction "length buf" arbitrary: buf rule: less_induct)
  case less
  show ?case
  proof (cases buf rule: stream_cases)
    case (Error e)
    then show ?thesis by (simp add: msgs_unfold [of buf] msgs_unfold [of "buf @ more"] dec_more_Inl)
  next
    case Wait
    then show ?thesis by (simp add: msgs_unfold [of buf] split: prod.splits)
  next
    case (Message m n)
    then have "msgs (buf @ more) = (case msgs (drop n buf @ more) of (e, rest, ms) \<Rightarrow> (e, rest, m # ms))"
      by (subst msgs_unfold) (simp add: dec_more_Some)
    with Message less [of "drop n buf"] show ?thesis
      by (auto simp: msgs_unfold [of buf] split: prod.splits option.splits)
  qed
qed

lemma msgs_stops: "msgs buf = (None, rest, ms) \<Longrightarrow> dec rest = Inr None"
proof (induction "length buf" arbitrary: buf ms rule: less_induct)
  case less
  then show ?case
  proof (cases buf rule: stream_cases)
    case (Message m n)
    with less.prems obtain ms' where "msgs (drop n buf) = (None, rest, ms')"
      by (auto simp: msgs_unfold [of buf] split: prod.splits)
    with Message(2) show ?thesis by (rule less.hyps)
  qed (auto simp: msgs_unfold [of buf])
qed

text \<open>Bytes that are consumed as messages, one message more.\<close>

lemma msgs_consume:
  assumes "msgs pre = (None, [], ms)" and "dec buf = Inr (Some (m, n))"
  shows "msgs (pre @ take n buf) = (None, [], ms @ [m])"
proof -
  have nil: "msgs [] = (None, [], [])" using msgs_stops [OF assms(1)] by (simp add: msgs_unfold [of "[]"])
  have "dec (take n buf) = Inr (Some (m, n))" and "n \<le> length buf"
    using dec_take [OF assms(2)] dec_bounds [OF assms(2)] by simp_all
  then have "msgs (take n buf) = (None, [], [m])" by (simp add: msgs_unfold [of "take n buf"] nil)
  with assms(1) show ?thesis by (subst msgs_append) simp
qed

text \<open>How the stream is cut into chunks does not matter.\<close>

lemma feed_concat:
  assumes "dec buf = Inr None"
  shows "(case run h (buf @ concat chunks) s of
            (None, rest, s') \<Rightarrow> feed (run h) chunks buf s = (None, rest, s')
          | (Some e, rest, s') \<Rightarrow> \<exists>rest'. feed (run h) chunks buf s = (Some e, rest', s'))"
  using assms
proof (induction chunks arbitrary: buf s)
  case Nil
  then show ?case by (simp add: run_None)
next
  case (Cons chunk chunks)
  have split: "run h (buf @ concat (chunk # chunks)) s =
      (case run h (buf @ chunk) s of
         (Some e, rest, s') \<Rightarrow> (Some e, rest @ concat chunks, s')
       | (None, rest, s') \<Rightarrow> run h (rest @ concat chunks) s')"
    using run_append [of h "buf @ chunk" "concat chunks" s] by simp
  obtain e rest s' where r: "run h (buf @ chunk) s = (e, rest, s')" by (cases "run h (buf @ chunk) s")
  show ?case
  proof (cases e)
    case None
    with r have "dec rest = Inr None" by (simp add: run_stops)
    from Cons.IH [OF this, of s'] split r None show ?thesis by (auto split: prod.splits option.splits)
  next
    case (Some x)
    with split r show ?thesis by simp
  qed
qed

end

locale framed_codec = stream_decoder dec msgs run
  for dec :: "bytes \<Rightarrow> ('e, ('m \<times> nat) option) result"
    and msgs :: "bytes \<Rightarrow> 'e option \<times> bytes \<times> 'm list"
    and run :: "('m \<Rightarrow> 's \<Rightarrow> 's) \<Rightarrow> bytes \<Rightarrow> 's \<Rightarrow> 'e option \<times> bytes \<times> 's" +
  fixes enc :: "'m \<Rightarrow> bytes" and ok :: "'m \<Rightarrow> bool"
  assumes dec_enc: "ok m \<Longrightarrow> dec (enc m @ rest) = Inr (Some (m, length (enc m)))"
    and dec_prefix: "ok m \<Longrightarrow> k < length (enc m) \<Longrightarrow> dec (take k (enc m)) = Inr None"
begin

lemma run_encoded:
  "list_all ok ms \<Longrightarrow> run h (concat (map enc ms) @ rest) s = run h rest (fold h ms s)"
  by (induction ms arbitrary: s) (simp_all add: run_Some [OF dec_enc])

lemma msgs_encoded:
  "list_all ok ms \<Longrightarrow> msgs (concat (map enc ms) @ rest) =
     (case msgs rest of (e, rest', ms') \<Rightarrow> (e, rest', ms @ ms'))"
proof (induction ms)
  case (Cons m ms)
  then have "dec (enc m @ concat (map enc ms) @ rest) = Inr (Some (m, length (enc m)))"
    by (simp add: dec_enc)
  with Cons show ?case by (simp add: msgs_unfold [of "enc m @ concat (map enc ms) @ rest"] split: prod.splits)
qed (simp split: prod.splits)

lemma dec_Nil: "ok m \<Longrightarrow> dec [] = Inr None"
  using dec_prefix [of m 0] dec_enc [of m "[]"] dec_bounds [of "[]" m 0] by (cases "enc m = []") auto

lemma run_encoded_partial:
  assumes "list_all ok ms" and "ok m" and "k < length (enc m)"
  shows "run h (concat (map enc ms) @ take k (enc m)) s = (None, take k (enc m), fold h ms s)"
  using assms by (simp add: run_encoded run_None dec_prefix)

text \<open>
  A stream that is the concatenation of well-formed messages, cut into any chunks, reaches the
  handler as exactly those messages, in order.
\<close>

lemma feed_encoded:
  assumes "list_all ok ms" and "ok m" and "k < length (enc m)"
    and "concat chunks = concat (map enc ms) @ take k (enc m)"
  shows "feed (run h) chunks [] s = (None, take k (enc m), fold h ms s)"
  using feed_concat [OF dec_Nil [OF assms(2)], of h chunks s]
    run_encoded_partial [OF assms(1-3), of h s] assms(4) by simp

end

section \<open>The codecs of the daemon provide it\<close>

lemma length_concat_put_string:
  "length (concat (map (put_string []) ss)) = sum_list (map (\<lambda>s. 2 + min (length s) 65535) ss)"
  by (induction ss) (simp_all add: length_put_string)

lemma client_payload_length:
  assumes "client_ok req" and "encode_client_payload req = Inr (t, payload)"
  shows "length payload < 2 ^ 32"
  using assms
  by (cases req)
    (auto simp: client_ok_def encode_client_payload_def foldl_put_string put_u16_def
      put_string_Nil [of "put_string _ _"] length_put_string strings_ok_def string_ok_def)

lemma daemon_payload_length:
  assumes "daemon_ok resp" and "encode_daemon_payload resp = Inr (t, payload)"
  shows "length payload < 2 ^ 32"
  using assms
  by (cases resp)
    (auto simp: daemon_ok_def encode_daemon_payload_def foldl_put_string put_u16_def
      put_string_prefix length_put_string strings_ok_def string_ok_def split: option.splits)

text \<open>The encoders never fail: the bytes they produce.\<close>

definition client_packet :: "ClientBinaryRequest \<Rightarrow> bytes" where
  "client_packet req = (case encode_client req of Inl _ \<Rightarrow> [] | Inr p \<Rightarrow> p)"

definition daemon_packet :: "DaemonBinaryResponse \<Rightarrow> bytes" where
  "daemon_packet resp = (case encode_daemon resp of Inl _ \<Rightarrow> [] | Inr p \<Rightarrow> p)"

lemma encode_client_payload_total: obtains t payload where "encode_client_payload req = Inr (t, payload)"
  by (cases req) (auto simp: encode_client_payload_def)

lemma encode_daemon_payload_total: obtains t payload where "encode_daemon_payload resp = Inr (t, payload)"
  by (cases resp) (auto simp: encode_daemon_payload_def)

lemma client_packet_eq:
  "encode_client_payload req = Inr (t, payload) \<Longrightarrow> client_packet req = packet t payload"
  by (simp add: client_packet_def encode_client_def encode_packet_eq)

lemma daemon_packet_eq:
  "encode_daemon_payload resp = Inr (t, payload) \<Longrightarrow> daemon_packet resp = packet t payload"
  by (simp add: daemon_packet_def encode_daemon_def encode_packet_eq)

lemma encode_client_total: "encode_client req = Inr (client_packet req)"
proof -
  obtain t payload where "encode_client_payload req = Inr (t, payload)"
    by (rule encode_client_payload_total)
  then show ?thesis by (simp add: client_packet_eq encode_client_def encode_packet_eq)
qed

lemma encode_daemon_total: "encode_daemon resp = Inr (daemon_packet resp)"
proof -
  obtain t payload where "encode_daemon_payload resp = Inr (t, payload)"
    by (rule encode_daemon_payload_total)
  then show ?thesis by (simp add: daemon_packet_eq encode_daemon_def encode_packet_eq)
qed

lemma decode_client_from_packet:
  assumes "client_ok req"
  shows "decode_client_from (client_packet req @ rest) = Inr (Some (req, length (client_packet req)))"
proof -
  obtain t payload where p: "encode_client_payload req = Inr (t, payload)"
    by (rule encode_client_payload_total)
  then have "decode_client_payload t payload = Inr (req, [])"
    by (intro parsesD_nil decode_client_payload_encode assms)
  with p show ?thesis
    using client_payload_length [OF assms p]
    by (simp add: client_packet_eq decode_client_from_def decode_packet_packet)
qed

lemma decode_daemon_from_packet:
  assumes "daemon_ok resp"
  shows "decode_daemon_from (daemon_packet resp @ rest) = Inr (Some (resp, length (daemon_packet resp)))"
proof -
  obtain t payload where p: "encode_daemon_payload resp = Inr (t, payload)"
    by (rule encode_daemon_payload_total)
  then have "decode_daemon_payload t payload = Inr (resp, [])"
    by (intro parsesD_nil decode_daemon_payload_encode assms)
  with p show ?thesis
    using daemon_payload_length [OF assms p]
    by (simp add: daemon_packet_eq decode_daemon_from_def decode_packet_packet)
qed

lemma decode_client_from_prefix:
  assumes "client_ok req" and "k < length (client_packet req)"
  shows "decode_client_from (take k (client_packet req)) = Inr None"
proof -
  obtain t payload where p: "encode_client_payload req = Inr (t, payload)"
    by (rule encode_client_payload_total)
  with assms(2) show ?thesis
    using client_payload_length [OF assms(1) p]
    by (simp add: client_packet_eq decode_client_from_def decode_packet_prefix)
qed

lemma decode_daemon_from_prefix:
  assumes "daemon_ok resp" and "k < length (daemon_packet resp)"
  shows "decode_daemon_from (take k (daemon_packet resp)) = Inr None"
proof -
  obtain t payload where p: "encode_daemon_payload resp = Inr (t, payload)"
    by (rule encode_daemon_payload_total)
  with assms(2) show ?thesis
    using daemon_payload_length [OF assms(1) p]
    by (simp add: daemon_packet_eq decode_daemon_from_def decode_packet_prefix)
qed

interpretation requests: framed_codec decode_client_from requests_in drain_requests client_packet client_ok
proof unfold_locales
  show "requests_in buf =
      (case decode_client_from buf of
         Inl e \<Rightarrow> (Some e, buf, [])
       | Inr None \<Rightarrow> (None, buf, [])
       | Inr (Some (m, n)) \<Rightarrow> (case requests_in (drop n buf) of (e, rest, ms) \<Rightarrow> (e, rest, m # ms)))" for buf
    by (rule requests_in.simps)
  show "drain_requests h buf s =
      (case decode_client_from buf of
         Inl e \<Rightarrow> (Some e, buf, s)
       | Inr None \<Rightarrow> (None, buf, s)
       | Inr (Some (m, n)) \<Rightarrow> drain_requests h (drop n buf) (h m s))" for h buf and s :: 'a
    by (rule drain_requests.simps)
qed (auto simp: decode_client_from_more_Some decode_client_from_take decode_client_from_more_Inl
    decode_client_from_packet decode_client_from_prefix dest: decode_client_from_bounds(2,3))

interpretation responses: framed_codec decode_daemon_from responses_in drain_responses daemon_packet daemon_ok
proof unfold_locales
  show "responses_in buf =
      (case decode_daemon_from buf of
         Inl e \<Rightarrow> (Some e, buf, [])
       | Inr None \<Rightarrow> (None, buf, [])
       | Inr (Some (m, n)) \<Rightarrow> (case responses_in (drop n buf) of (e, rest, ms) \<Rightarrow> (e, rest, m # ms)))" for buf
    by (rule responses_in.simps)
  show "drain_responses h buf s =
      (case decode_daemon_from buf of
         Inl e \<Rightarrow> (Some e, buf, s)
       | Inr None \<Rightarrow> (None, buf, s)
       | Inr (Some (m, n)) \<Rightarrow> drain_responses h (drop n buf) (h m s))" for h buf and s :: 'a
    by (rule drain_responses.simps)
qed (auto simp: decode_daemon_from_more_Some decode_daemon_from_take decode_daemon_from_more_Inl
    decode_daemon_from_packet decode_daemon_from_prefix dest: decode_daemon_from_bounds(2,3))

section \<open>Properties of the binary protocol\<close>

text \<open>C11: Every well-formed client request is encoded, and the decoder returns exactly that request
  and the packet's length whatever bytes follow; any strict prefix of the packet makes the decoder
  wait for more bytes instead of failing.\<close>

theorem client_roundtrip:
  assumes "client_ok req"
  shows "\<exists>p. encode_client req = Inr p
      \<and> (\<forall>rest. decode_client_from (p @ rest) = Inr (Some (req, length p)))
      \<and> (\<forall>k. decode_client_from (take k p) = (if k < length p then Inr None else Inr (Some (req, length p))))"
proof (intro exI conjI allI)
  show "encode_client req = Inr (client_packet req)" by (rule encode_client_total)
  show "decode_client_from (client_packet req @ rest) = Inr (Some (req, length (client_packet req)))" for rest
    using assms by (rule decode_client_from_packet)
  show "decode_client_from (take k (client_packet req)) =
      (if k < length (client_packet req) then Inr None
       else Inr (Some (req, length (client_packet req))))" for k
    using decode_client_from_prefix [OF assms] decode_client_from_packet [OF assms, of "[]"] by simp
qed

text \<open>C12: The same for every well-formed daemon response.\<close>

theorem daemon_roundtrip:
  assumes "daemon_ok resp"
  shows "\<exists>p. encode_daemon resp = Inr p
      \<and> (\<forall>rest. decode_daemon_from (p @ rest) = Inr (Some (resp, length p)))
      \<and> (\<forall>k. decode_daemon_from (take k p) = (if k < length p then Inr None else Inr (Some (resp, length p))))"
proof (intro exI conjI allI)
  show "encode_daemon resp = Inr (daemon_packet resp)" by (rule encode_daemon_total)
  show "decode_daemon_from (daemon_packet resp @ rest) = Inr (Some (resp, length (daemon_packet resp)))" for rest
    using assms by (rule decode_daemon_from_packet)
  show "decode_daemon_from (take k (daemon_packet resp)) =
      (if k < length (daemon_packet resp) then Inr None
       else Inr (Some (resp, length (daemon_packet resp))))" for k
    using decode_daemon_from_prefix [OF assms] decode_daemon_from_packet [OF assms, of "[]"] by simp
qed

theorem client_roundtrip_witness:
  "client_ok (ClientBinaryRequest.SendFrame ''can0'' 0x18DAF110 True True False [2, 16, 3])
   \<and> (\<exists>p. encode_client (ClientBinaryRequest.SendFrame ''can0'' 0x18DAF110 True True False [2, 16, 3]) = Inr p
        \<and> decode_client_from (p @ [7]) =
            Inr (Some (ClientBinaryRequest.SendFrame ''can0'' 0x18DAF110 True True False [2, 16, 3], length p)))"
proof -
  have ok: "client_ok (ClientBinaryRequest.SendFrame ''can0'' 0x18DAF110 True True False [2, 16, 3])"
    by (simp add: client_ok_def string_ok_ascii)
  then show ?thesis using client_roundtrip [OF ok] by blast
qed

theorem daemon_roundtrip_witness:
  "daemon_ok (DaemonBinaryResponse.FrameEvent 1700000123456 ''can0'' ''tx'' 0x123 False [0xDE, 0xAD])
   \<and> (\<exists>p. encode_daemon (DaemonBinaryResponse.FrameEvent 1700000123456 ''can0'' ''tx'' 0x123 False [0xDE, 0xAD])
        = Inr p
        \<and> decode_daemon_from (p @ p) = Inr (Some (DaemonBinaryResponse.FrameEvent 1700000123456 ''can0'' ''tx'' 0x123
            False [0xDE, 0xAD], length p)))"
proof -
  have ok: "daemon_ok (DaemonBinaryResponse.FrameEvent 1700000123456 ''can0'' ''tx'' 0x123 False [0xDE, 0xAD])"
    by (simp add: daemon_ok_def string_ok_ascii)
  then show ?thesis using daemon_roundtrip [OF ok] by blast
qed

lemma client_payload_ok:
  assumes "decode_client_payload t payload = Inr (req, rest)" and "length payload < 2 ^ 32"
  shows "client_ok req \<and> fst (projr (encode_client_payload req)) = t"
  using assms
  by (cases t)
    (auto simp: decode_client_payload_def client_ok_def encode_client_payload_def bind_reader_eq_Inr
      strings_ok_def dest!: get_string_Inr get_strings_Inr get_data_Inr get_u16_Inr)

lemma daemon_payload_ok:
  assumes "decode_daemon_payload t payload = Inr (resp, rest)" and "length payload < 2 ^ 32"
  shows "daemon_ok resp \<and> fst (projr (encode_daemon_payload resp)) = t"
  using assms
  by (cases t)
    (auto simp: decode_daemon_payload_def daemon_ok_def encode_daemon_payload_def bind_reader_eq_Inr
      strings_ok_def length_put_string_ok dest!: get_string_Inr get_strings_Inr get_data_Inr get_u16_Inr
      split: option.splits)

text \<open>C13: Whatever bytes a peer sends, a request the decoder accepts is well-formed (valid UTF-8
  strings within their length fields), came from a complete packet that starts with the magic and
  carries a client message type, and the decoder consumed at least the header and at most the
  buffer.\<close>

theorem decode_client_sound:
  assumes "decode_client_from buf = Inr (Some (req, n))"
  shows "client_ok req \<and> HEADER_LEN \<le> n \<and> n \<le> length buf \<and> take 4 buf = MAGIC
    \<and> from_le_bytes [buf ! 4, buf ! 5] = msg_type_code (fst (projr (encode_client_payload req)))"
proof -
  obtain t payload rest where p: "decode_packet buf = Inr (Some (t, payload, n))"
    and q: "decode_client_payload t payload = Inr (req, rest)"
    using assms by (auto simp: decode_client_from_Some_iff)
  from client_payload_ok [OF q decode_packet_Some(4) [OF p]]
  show ?thesis
    using decode_client_from_bounds [OF assms] decode_packet_Some(5) [OF p]
      from_u16_Inr [OF decode_packet_Some(6) [OF p]] by auto
qed

theorem decode_client_sound_witness:
  "decode_client_from [0x43, 0x42, 0x44, 0x31, 102, 0, 9, 9, 8, 0, 0, 0, 42, 0, 0, 0, 0, 0, 0, 0, 1]
     = Inr (Some (ClientBinaryRequest.Ping 42, 20))
   \<and> client_ok (ClientBinaryRequest.Ping 42)"
proof -
  have d: "decode_client_from
      [0x43, 0x42, 0x44, 0x31, 102, 0, 9, 9, 8, 0, 0, 0, 42, 0, 0, 0, 0, 0, 0, 0, 1]
      = Inr (Some (ClientBinaryRequest.Ping 42, 20))"
    by code_simp
  then show ?thesis using decode_client_sound [OF d] by simp
qed

text \<open>The packet loop does not depend on how the stream was cut: running it over the first part of a
  buffer and then over what is left with the rest appended gives the same error, buffer and handler
  state as one run over the whole buffer, for every byte sequence, malformed ones included.\<close>

lemma drain_requests_append:
  "drain_requests h (buf @ more) s =
     (case drain_requests h buf s of
        (Some e, rest, s') \<Rightarrow> (Some e, rest @ more, s')
      | (None, rest, s') \<Rightarrow> drain_requests h (rest @ more) s')"
  by (rule requests.run_append)

text \<open>The two directions never mix: the request decoder refuses every packet a daemon response is
  encoded to, and the response decoder every packet of a client request.\<close>

lemma directions_disjoint:
  "(\<forall>resp p. encode_daemon resp = Inr p \<and> length p < 2 ^ 32 \<longrightarrow>
      (\<exists>t. decode_client_from (p @ rest) = Inl (GotDaemonMsgType t)))
   \<and> (\<forall>req p. encode_client req = Inr p \<and> length p < 2 ^ 32 \<longrightarrow>
      (\<exists>t. decode_daemon_from (p @ rest) = Inl (GotClientMsgType t)))"
proof (intro conjI allI impI; elim conjE)
  fix resp p assume enc: "encode_daemon resp = Inr p" and len: "length p < 2 ^ 32"
  obtain t payload where e: "encode_daemon_payload resp = Inr (t, payload)"
    by (rule encode_daemon_payload_total)
  with enc have p: "p = packet t payload" by (simp add: encode_daemon_total daemon_packet_eq)
  from e have "decode_client_payload t payload = Inl (GotDaemonMsgType t)"
    by (cases resp) (auto simp: encode_daemon_payload_def decode_client_payload_def)
  with p len show "\<exists>t. decode_client_from (p @ rest) = Inl (GotDaemonMsgType t)"
    by (auto simp: decode_client_from_def decode_packet_packet)
next
  fix req p assume enc: "encode_client req = Inr p" and len: "length p < 2 ^ 32"
  obtain t payload where e: "encode_client_payload req = Inr (t, payload)"
    by (rule encode_client_payload_total)
  with enc have p: "p = packet t payload" by (simp add: encode_client_total client_packet_eq)
  from e have "decode_daemon_payload t payload = Inl (GotClientMsgType t)"
    by (cases req) (auto simp: encode_client_payload_def decode_daemon_payload_def)
  with p len show "\<exists>t. decode_daemon_from (p @ rest) = Inl (GotClientMsgType t)"
    by (auto simp: decode_daemon_from_def decode_packet_packet)
qed

text \<open>C15: Strings longer than the length field are cut at byte 65535 without regard to character
  boundaries: there is a valid message text whose encoded error response is a packet that the
  protocol's own decoder rejects as invalid UTF-8.\<close>

theorem long_string_breaks_utf8:
  "\<exists>message p. utf8_ok message \<and> length message = 65536
     \<and> encode_daemon (DaemonBinaryResponse.Error message) = Inr p
     \<and> decode_daemon_from p = Inl Utf8"
proof -
  define a where "a = replicate 65534 (0x61 :: u8)"
  define message where "message = of_bytes (a @ [0xC3, 0xA9])"
  have la: "length a = 65534" by (simp add: a_def)
  have ca: "utf8_chars a = Some (map (\<lambda>b. [b]) a)"
    by (rule utf8_chars_ascii) (auto simp: a_def)
  have "utf8_chars [0xC3, 0xA9] = Some [[0xC3, 0xA9]]" by code_simp
  with ca have ok: "utf8_ok message" by (simp add: utf8_ok_def message_def utf8_chars_append)
  have "utf8_chars [0xC3] = None" by code_simp
  with ca have bad: "utf8_chars (a @ [0xC3]) = None" by (simp add: utf8_chars_append)
  have put: "put_string [] message = u16_to_le_bytes 65535 @ a @ [0xC3]"
    using la by (simp add: put_string_def Let_def message_def)
  then have "get_string (put_string [] message) = Inl Utf8"
    using bad la by (simp add: get_string_def get_u16_step from_utf8_def)
  moreover have e: "encode_daemon_payload (DaemonBinaryResponse.Error message) =
      Inr (MsgType.Error, put_string [] message)"
    by (simp add: encode_daemon_payload_def)
  moreover have "length (put_string [] message) < 2 ^ 32" using put la by simp
  ultimately have "decode_daemon_from (packet MsgType.Error (put_string [] message)) = Inl Utf8"
    using decode_packet_packet [of "put_string [] message" MsgType.Error "[]"]
    by (simp add: decode_daemon_from_def decode_daemon_payload_def)
  moreover have "length message = 65536" using la by (simp add: message_def)
  ultimately show ?thesis
    using ok e encode_daemon_total [of "DaemonBinaryResponse.Error message"] by (auto simp: daemon_packet_eq)
qed

end
