(* ===== verification/Frame.thy ===== *)
theory Frame
  imports Rust_String
begin

text \<open>
  The domain types of \<open>src/domain/frame.rs\<close> and \<open>src/domain/protocol.rs\<close>: frame events,
  the hexadecimal rendering of their data, the JSON requests and responses, and the capture
  filters. Fields of a struct carry a short prefix (\<open>ev_\<close>, \<open>flt_\<close>) so that the source's
  parameter names stay free.
\<close>

section \<open>Frames\<close>

datatype Direction = Rx | Tx

record frame_event =
  ev_ts_ms :: u64
  ev_iface :: string
  ev_dir :: Direction
  ev_id :: u32
  ev_is_fd :: bool
  ev_data :: bytes

text \<open>\<open>match dir { Direction::Rx => "rx", Direction::Tx => "tx" }\<close>\<close>

fun dir_text :: "Direction \<Rightarrow> string" where
  "dir_text Rx = ''rx''"
| "dir_text Tx = ''tx''"

definition LUT :: bytes where
  "LUT = as_bytes ''0123456789abcdef''"

definition hex_lower :: "bytes \<Rightarrow> string" where
  "hex_lower bs =
     (let out = foldl (\<lambda>out b. (out @ [LUT ! unat (drop_bit 4 b)]) @ [LUT ! unat (b AND 0x0F)]) [] bs
      in case from_utf8 out of None \<Rightarrow> '''' | Some s \<Rightarrow> s)"

section \<open>Requests, responses and filters\<close>

record frame_filter =
  flt_iface :: "string option"
  flt_id :: "u32 option"
  flt_id_mask :: "u32 option"
  flt_is_fd :: "bool option"
  flt_min_len :: "nat option"
  flt_max_len :: "nat option"

text \<open>\<open>Subscribe\<close>: ifaces, filters. \<open>SendFrame\<close>: iface, id, is\_fd, brs, esi, data\_hex.\<close>

datatype ClientRequest =
    ClientHello string string
  | Ping u64
  | ListIfaces
  | Subscribe "string list" "frame_filter list"
  | Unsubscribe
  | SendFrame string u32 bool bool bool string

text \<open>
  \<open>HelloAck\<close>: version, features, server\_name. \<open>Frame\<close>: ts\_ms, iface, dir, id, is\_fd,
  data\_hex. \<open>SendAck\<close>: ok, error\_message.
\<close>

datatype DaemonResponse =
    HelloAck string "string list" string
  | Pong u64
  | Ifaces "string list"
  | Subscribed "string list"
  | Unsubscribed
  | Frame u64 string string u32 bool string
  | SendAck bool "string option"
  | Error string

text \<open>The derived \<open>Debug\<close> of requests and responses, used in error texts.\<close>

definition debug_frame_filter :: "(string \<Rightarrow> string) \<Rightarrow> frame_filter \<Rightarrow> string" where
  "debug_frame_filter dbg_str f =
     debug_struct ''FrameFilter''
       [(''iface'', debug_option dbg_str (flt_iface f)),
        (''id'', debug_option show_word (flt_id f)),
        (''id_mask'', debug_option show_word (flt_id_mask f)),
        (''is_fd'', debug_option show_bool (flt_is_fd f)),
        (''min_len'', debug_option show_nat (flt_min_len f)),
        (''max_len'', debug_option show_nat (flt_max_len f))]"

fun debug_request :: "(string \<Rightarrow> string) \<Rightarrow> ClientRequest \<Rightarrow> string" where
  "debug_request dbg_str (ClientRequest.ClientHello client protocol) =
     debug_struct ''ClientHello'' [(''client'', dbg_str client), (''protocol'', dbg_str protocol)]"
| "debug_request dbg_str (ClientRequest.Ping i) = debug_struct ''Ping'' [(''id'', show_word i)]"
| "debug_request dbg_str ClientRequest.ListIfaces = ''ListIfaces''"
| "debug_request dbg_str (ClientRequest.Subscribe ifaces filters) =
     debug_struct ''Subscribe''
       [(''ifaces'', debug_vec dbg_str ifaces),
        (''filters'', debug_vec (debug_frame_filter dbg_str) filters)]"
| "debug_request dbg_str ClientRequest.Unsubscribe = ''Unsubscribe''"
| "debug_request dbg_str (ClientRequest.SendFrame iface i is_fd brs esi data_hex) =
     debug_struct ''SendFrame''
       [(''iface'', dbg_str iface), (''id'', show_word i), (''is_fd'', show_bool is_fd),
        (''brs'', show_bool brs), (''esi'', show_bool esi), (''data_hex'', dbg_str data_hex)]"

fun debug_response :: "(string \<Rightarrow> string) \<Rightarrow> DaemonResponse \<Rightarrow> string" where
  "debug_response dbg_str (DaemonResponse.HelloAck version features server_name) =
     debug_struct ''HelloAck''
       [(''version'', dbg_str version), (''features'', debug_vec dbg_str features),
        (''server_name'', dbg_str server_name)]"
| "debug_response dbg_str (DaemonResponse.Pong i) = debug_struct ''Pong'' [(''id'', show_word i)]"
| "debug_response dbg_str (DaemonResponse.Ifaces items) =
     debug_struct ''Ifaces'' [(''items'', debug_vec dbg_str items)]"
| "debug_response dbg_str (DaemonResponse.Subscribed ifaces) =
     debug_struct ''Subscribed'' [(''ifaces'', debug_vec dbg_str ifaces)]"
| "debug_response dbg_str DaemonResponse.Unsubscribed = ''Unsubscribed''"
| "debug_response dbg_str (DaemonResponse.Frame ts_ms iface dir i is_fd data_hex) =
     debug_struct ''Frame''
       [(''ts_ms'', show_word ts_ms), (''iface'', dbg_str iface), (''dir'', dbg_str dir),
        (''id'', show_word i), (''is_fd'', show_bool is_fd), (''data_hex'', dbg_str data_hex)]"
| "debug_response dbg_str (DaemonResponse.SendAck ok error_message) =
     debug_struct ''SendAck''
       [(''ok'', show_bool ok), (''error_message'', debug_option dbg_str error_message)]"
| "debug_response dbg_str (DaemonResponse.Error message) =
     debug_struct ''Error'' [(''message'', dbg_str message)]"

section \<open>Hexadecimal digits\<close>

text \<open>The digit of a nibble, and the text of a byte vector as a concatenation of digit pairs.\<close>

definition hex_digit :: "u8 \<Rightarrow> u8" where
  "hex_digit n = LUT ! unat n"

definition hex_pair :: "u8 \<Rightarrow> bytes" where
  "hex_pair b = [hex_digit (drop_bit 4 b), hex_digit (b AND 0x0F)]"

lemma LUT_eq: "LUT = [48, 49, 50, 51, 52, 53, 54, 55, 56, 57, 97, 98, 99, 100, 101, 102]"
  by (simp add: LUT_def as_bytes_def byte_of_char_def)

lemma hi_nibble_less: "unat (drop_bit 4 (b :: u8)) < 16"
proof -
  have "unat b < 256" using unsigned_less [of b] by simp
  then have "unat b div 2 ^ 4 < 16" by simp
  then show ?thesis unfolding unat_drop_bit_eq by (simp add: drop_bit_eq_div)
qed

lemma lo_nibble_less: "unat ((b :: u8) AND 0x0F) < 16"
proof -
  have "unat (b AND 0x0F) \<le> unat (0x0F :: u8)"
    by (rule word_and_le1 [THEN word_le_nat_alt [THEN iffD1]])
  then show ?thesis by simp
qed

lemma nat_less_16: "n < (16 :: nat) \<Longrightarrow> n \<in> {0, 1, 2, 3, 4, 5, 6, 7, 8, 9, 10, 11, 12, 13, 14, 15}"
  unfolding insert_iff empty_iff by presburger

lemma hex_digit_ascii: "unat n < 16 \<Longrightarrow> hex_digit n \<le> 0x7F"
  using nat_less_16 [of "unat n"] by (auto simp: hex_digit_def LUT_eq)

lemma hex_pair_ascii: "c \<in> set (hex_pair b) \<Longrightarrow> c \<le> 0x7F"
  using hex_digit_ascii hi_nibble_less lo_nibble_less by (auto simp: hex_pair_def)

lemma hex_loop: "foldl (\<lambda>out b. (out @ [LUT ! unat (drop_bit 4 b)]) @ [LUT ! unat (b AND 0x0F)]) out bs
    = out @ concat (map hex_pair bs)"
  by (induction bs arbitrary: out) (simp_all add: hex_pair_def hex_digit_def)

lemma hex_bytes_ascii: "\<forall>c\<in>set (concat (map hex_pair bs)). c \<le> 0x7F"
  using hex_pair_ascii by auto

lemma hex_lower_eq: "hex_lower bs = of_bytes (concat (map hex_pair bs))"
  using utf8_chars_ascii [OF hex_bytes_ascii]
  unfolding hex_lower_def hex_loop by (simp add: from_utf8_def)

lemma length_hex_lower: "length (hex_lower bs) = 2 * length bs"
  by (induction bs) (simp_all add: hex_lower_eq hex_pair_def of_bytes_def)

lemma utf8_ok_hex_lower: "utf8_ok (hex_lower bs)"
  using utf8_chars_ascii [OF hex_bytes_ascii] by (simp add: utf8_ok_def hex_lower_eq)

end
