(* ===== verification/Service.thy ===== *)
theory Service
  imports Frame
begin

text \<open>
  The application layer: the ports of \<open>src/ports\<close> and \<open>BridgeService\<close> of
  \<open>src/app/service.rs\<close>. A port call is a function of the outside world and returns the
  world after it; \<open>anyhow\<close> errors are their display text. The frame bus is the sequence
  of events handed to the broadcast sender; what each receiver gets of it is an input of the
  transports.
\<close>

section \<open>Ports and state\<close>

text \<open>
  \<open>list_can_ifaces\<close> and \<open>can_send\<close> are the methods of \<open>DiscoveryPort\<close> and
  \<open>CanTxPort\<close>; \<open>system_time\<close> is the clock in nanoseconds relative to the Unix epoch.
\<close>

record 'w ports =
  list_can_ifaces :: "'w \<Rightarrow> (string, string list) result \<times> 'w"
  can_send :: "string \<Rightarrow> u32 \<Rightarrow> bool \<Rightarrow> bool \<Rightarrow> bool \<Rightarrow> bytes \<Rightarrow> 'w \<Rightarrow> (string, unit) result \<times> 'w"
  system_time :: "'w \<Rightarrow> int"

record 'w bridge =
  world :: 'w
  published :: "frame_event list"

definition publish_frame :: "frame_event \<Rightarrow> 'w bridge \<Rightarrow> 'w bridge" where
  "publish_frame ev d = d\<lparr>published := published d @ [ev]\<rparr>"

text \<open>
  \<open>duration_since(UNIX_EPOCH)\<close> fails before the epoch; \<open>as_millis() as u64\<close> keeps the
  low 64 bits.
\<close>

definition now_ms :: "int \<Rightarrow> u64" where
  "now_ms t = (if t < 0 then 0 else word_of_int (t div 1000000))"

section \<open>Hexadecimal payloads\<close>

datatype hex_error = OddLength | InvalidHexChar u8

text \<open>\<open>bytes[i] as char\<close>: the character with that code, in UTF-8.\<close>

definition u8_as_char :: "u8 \<Rightarrow> bytes" where
  "u8_as_char b = (if b \<le> 0x7F then [b] else [0xC0 OR drop_bit 6 b, 0x80 OR (b AND 0x3F)])"

fun hex_error_text :: "hex_error \<Rightarrow> string" where
  "hex_error_text OddLength = ''hex string must have even length''"
| "hex_error_text (InvalidHexChar b) = ''invalid hex char '' @ [CHR 0x27] @ of_bytes (u8_as_char b) @ [CHR 0x27]"

definition hex_val :: "u8 \<Rightarrow> u8 option" where
  "hex_val b =
     (if 48 \<le> b \<and> b \<le> 57 then Some (b - 48)
      else if 97 \<le> b \<and> b \<le> 102 then Some (10 + (b - 97))
      else if 65 \<le> b \<and> b \<le> 70 then Some (10 + (b - 65))
      else None)"

text \<open>
  The loop over \<open>(0..bytes.len()).step_by(2)\<close>. \<open>hex_to_bytes\<close> runs it on vectors of even
  length only, so the equation for a single byte, where the index \<open>i + 1\<close> would be out of range,
  is never reached.
\<close>

fun hex_bytes_loop :: "bytes \<Rightarrow> bytes \<Rightarrow> (hex_error, bytes) result" where
  "hex_bytes_loop out [] = Inr out"
| "hex_bytes_loop out [b] = Inl OddLength"
| "hex_bytes_loop out (b # c # rest) =
     (case hex_val b of
        None \<Rightarrow> Inl (InvalidHexChar b)
      | Some hi \<Rightarrow>
          (case hex_val c of
             None \<Rightarrow> Inl (InvalidHexChar c)
           | Some lo \<Rightarrow> hex_bytes_loop (out @ [push_bit 4 hi OR lo]) rest))"

definition hex_filtered :: "string \<Rightarrow> string" where
  "hex_filtered s = collect_chars (filter (\<lambda>c. \<not> is_whitespace c) (str_chars s))"

definition hex_to_bytes :: "string \<Rightarrow> (hex_error, bytes) result" where
  "hex_to_bytes s =
     (let filtered = hex_filtered s
      in if length filtered mod 2 \<noteq> 0 then Inl OddLength
         else hex_bytes_loop [] (as_bytes filtered))"

section \<open>Request handling\<close>

fun handle :: "'w ports \<Rightarrow> ClientRequest \<Rightarrow> 'w bridge \<Rightarrow> DaemonResponse \<times> 'w bridge" where
  "handle ports (ClientRequest.Ping i) d = (DaemonResponse.Pong i, d)"
| "handle ports ClientRequest.ListIfaces d =
     (case list_can_ifaces ports (world d) of
        (Inr items, w) \<Rightarrow> (DaemonResponse.Ifaces items, d\<lparr>world := w\<rparr>)
      | (Inl e, w) \<Rightarrow> (DaemonResponse.Error (''list_ifaces failed: '' @ e), d\<lparr>world := w\<rparr>))"
| "handle ports (ClientRequest.ClientHello client protocol) d =
     (DaemonResponse.Error ''client_hello is handled by transport layer'', d)"
| "handle ports (ClientRequest.Subscribe ifaces filters) d =
     (DaemonResponse.Error ''subscribe/unsubscribe are handled by transport layer'', d)"
| "handle ports ClientRequest.Unsubscribe d =
     (DaemonResponse.Error ''subscribe/unsubscribe are handled by transport layer'', d)"
| "handle ports (ClientRequest.SendFrame iface i is_fd brs esi data_hex) d =
     (case hex_to_bytes data_hex of
        Inl e \<Rightarrow> (DaemonResponse.SendAck False (Some (''bad data_hex: '' @ hex_error_text e)), d)
      | Inr data \<Rightarrow>
          (case can_send ports iface i is_fd brs esi data (world d) of
             (Inl e, w) \<Rightarrow> (DaemonResponse.SendAck False (Some e), d\<lparr>world := w\<rparr>)
           | (Inr _, w) \<Rightarrow>
               (DaemonResponse.SendAck True None,
                publish_frame
                  \<lparr>ev_ts_ms = now_ms (system_time ports w), ev_iface = iface, ev_dir = Tx,
                   ev_id = i, ev_is_fd = is_fd, ev_data = data\<rparr>
                  (d\<lparr>world := w\<rparr>))))"

section \<open>Hexadecimal round trip\<close>

lemma hex_val_table:
  "list_all (\<lambda>n. hex_val (hex_digit n) = Some n) [0, 1, 2, 3, 4, 5, 6, 7, 8, 9, 10, 11, 12, 13, 14, 15]"
  by code_simp

lemma hex_val_hex_digit: "unat n < 16 \<Longrightarrow> hex_val (hex_digit n) = Some n"
proof -
  assume "unat n < 16"
  then have "unat n \<in> {0, 1, 2, 3, 4, 5, 6, 7, 8, 9, 10, 11, 12, 13, 14, 15}" by (rule nat_less_16)
  moreover have "n = word_of_nat (unat n)" by simp
  ultimately have "n \<in> word_of_nat ` {0, 1, 2, 3, 4, 5, 6, 7, 8, 9, 10, 11, 12, 13, 14, 15}"
    by (rule rev_image_eqI)
  then show ?thesis using hex_val_table by auto
qed

lemma nibbles_join: "push_bit 4 (drop_bit 4 b) OR (b AND 0x0F) = (b :: u8)"
proof (rule bit_word_eqI)
  fix n assume "n < LENGTH(8)"
  have "bit (0x0F :: u8) n \<longleftrightarrow> n < 4"
  proof -
    have "(0x0F :: u8) = mask 4" by (simp add: mask_eq_decr_exp)
    then have "bit (0x0F :: u8) n \<longleftrightarrow> bit (mask 4 :: u8) n" by (rule arg_cong)
    also have "\<dots> \<longleftrightarrow> n < 4" unfolding bit_mask_iff using \<open>n < LENGTH(8)\<close> by simp
    finally show ?thesis .
  qed
  then show "bit (push_bit 4 (drop_bit 4 b) OR (b AND 0x0F)) n = bit b n"
    using \<open>n < LENGTH(8)\<close> by (auto simp: bit_simps)
qed

lemma hex_bytes_loop_pairs: "hex_bytes_loop out (concat (map hex_pair bs)) = Inr (out @ bs)"
proof (induction bs arbitrary: out)
  case (Cons b bs)
  then show ?case
    using hex_val_hex_digit [OF hi_nibble_less] hex_val_hex_digit [OF lo_nibble_less]
    by (simp add: hex_pair_def nibbles_join)
qed simp

lemma whitespace_free_ascii: "b \<in> set (concat (map hex_pair bs)) \<Longrightarrow> \<not> is_whitespace [b]"
proof -
  have digit: "\<not> is_whitespace [hex_digit n]" if "unat n < 16" for n
    using nat_less_16 [OF that]
    by (auto simp: is_whitespace_def is_whitespace_scalar_def hex_digit_def LUT_eq)
  assume "b \<in> set (concat (map hex_pair bs))"
  then show ?thesis using digit hi_nibble_less lo_nibble_less by (auto simp: hex_pair_def)
qed

lemma concat_singletons: "concat (map (\<lambda>b. [b]) bs) = bs"
  by (induction bs) simp_all

lemma hex_filtered_hex_lower: "hex_filtered (hex_lower bs) = hex_lower bs"
proof -
  let ?cs = "concat (map hex_pair bs)"
  have "str_chars (hex_lower bs) = map (\<lambda>b. [b]) ?cs"
    using utf8_chars_ascii [OF hex_bytes_ascii] by (simp add: str_chars_def hex_lower_eq)
  moreover have "filter (\<lambda>c. \<not> is_whitespace c) (map (\<lambda>b. [b]) ?cs) = map (\<lambda>b. [b]) ?cs"
    using whitespace_free_ascii by (auto simp: filter_id_conv)
  ultimately show ?thesis
    by (simp add: hex_filtered_def collect_chars_def hex_lower_eq concat_singletons)
qed

lemma hex_to_bytes_hex_lower [simp]: "hex_to_bytes (hex_lower bs) = Inr bs"
  using hex_bytes_loop_pairs [of "[]" bs]
  by (simp add: hex_to_bytes_def hex_filtered_hex_lower length_hex_lower) (simp add: hex_lower_eq)

text \<open>What an accepted text looks like: pairs of hexadecimal digits, in either case.\<close>

definition to_lower_hex :: "u8 \<Rightarrow> u8" where
  "to_lower_hex b = (if 65 \<le> b \<and> b \<le> 70 then b + 32 else b)"

lemma u8_cases_range:
  assumes "lo \<le> b" and "b \<le> hi"
  shows "b \<in> word_of_nat ` {unat lo..unat (hi :: u8)}"
proof -
  have "unat b \<in> {unat lo..unat hi}" using assms by (simp add: word_le_nat_alt)
  moreover have "b = word_of_nat (unat b)" by simp
  ultimately show ?thesis by (rule rev_image_eqI)
qed

lemma hex_val_Some: "hex_val b = Some v \<Longrightarrow> unat v < 16 \<and> hex_digit v = to_lower_hex b"
proof -
  assume v: "hex_val b = Some v"
  consider "48 \<le> b" "b \<le> 57" | "97 \<le> b" "b \<le> 102" | "65 \<le> b" "b \<le> 70"
    using v by (auto simp: hex_val_def split: if_splits)
  then show ?thesis
  proof cases
    case 1
    then have "b \<in> {48, 49, 50, 51, 52, 53, 54, 55, 56, 57}"
      using u8_cases_range [of 48 b 57] by (auto simp: atLeastAtMost_upt upt_rec)
    with v show ?thesis by (auto simp: hex_val_def hex_digit_def to_lower_hex_def LUT_eq)
  next
    case 2
    then have "b \<in> {97, 98, 99, 100, 101, 102}"
      using u8_cases_range [of 97 b 102] by (auto simp: atLeastAtMost_upt upt_rec)
    with v show ?thesis by (auto simp: hex_val_def hex_digit_def to_lower_hex_def LUT_eq)
  next
    case 3
    then have "b \<in> {65, 66, 67, 68, 69, 70}"
      using u8_cases_range [of 65 b 70] by (auto simp: atLeastAtMost_upt upt_rec)
    with v show ?thesis by (auto simp: hex_val_def hex_digit_def to_lower_hex_def LUT_eq)
  qed
qed

lemma hex_val_upper: "list_all (\<lambda>b. hex_val b = hex_val (to_lower_hex b)) [65, 66, 67, 68, 69, 70]"
  by code_simp

lemma to_lower_hex_digit:
  assumes "to_lower_hex b = hex_digit n" and "unat n < 16"
  shows "hex_val b = Some n"
proof (cases "65 \<le> b \<and> b \<le> 70")
  case True
  have "b \<in> {65, 66, 67, 68, 69, 70}"
    using u8_cases_range [of 65 b 70] True by (auto simp: atLeastAtMost_upt upt_rec)
  then have "hex_val b = hex_val (to_lower_hex b)" using hex_val_upper by (auto simp only: list.pred_inject insert_iff empty_iff)
  with assms show ?thesis by (simp add: hex_val_hex_digit)
next
  case False
  then have "to_lower_hex b = b" by (auto simp: to_lower_hex_def)
  with assms show ?thesis by (simp add: hex_val_hex_digit)
qed

lemma hex_pair_join:
  assumes "unat hi < 16" and "unat lo < 16"
  shows "hex_pair (push_bit 4 hi OR lo) = [hex_digit hi, hex_digit lo]"
proof -
  have small: "bit n k \<Longrightarrow> k < 4" if "unat n < 16" for n :: u8 and k
  proof -
    assume "bit n k"
    have "take_bit 4 n = n"
      using that
      by (simp add: word_eq_iff_unsigned [where 'a = nat] unsigned_take_bit_eq take_bit_nat_eq_self)
    then have "bit (take_bit 4 n) k" using \<open>bit n k\<close> by simp
    then show "k < 4" by (simp only: bit_take_bit_iff)
  qed
  have "drop_bit 4 (push_bit 4 hi OR lo) = hi"
    using small [OF assms(1)] small [OF assms(2)]
    by (intro bit_word_eqI) (fastforce simp: bit_simps)
  moreover have "(push_bit 4 hi OR lo) AND 0x0F = lo"
  proof -
    have "(0x0F :: u8) = mask 4" by (simp add: mask_eq_decr_exp)
    then have "(push_bit 4 hi OR lo) AND 0x0F = take_bit 4 (push_bit 4 hi OR lo)"
      by (simp only: take_bit_eq_mask)
    also have "\<dots> = lo"
      using small [OF assms(2)] by (intro bit_word_eqI) (auto simp: bit_simps)
    finally show ?thesis .
  qed
  ultimately show ?thesis by (simp add: hex_pair_def)
qed

lemma hex_bytes_loop_Inr:
  "hex_bytes_loop out bs = Inr r \<longleftrightarrow>
     (\<exists>ds. r = out @ ds \<and> map to_lower_hex bs = concat (map hex_pair ds))"
proof (induction out bs arbitrary: r rule: hex_bytes_loop.induct)
  case (1 out)
  have "concat (map hex_pair ds) = [] \<longleftrightarrow> ds = []" for ds by (cases ds) (auto simp: hex_pair_def)
  then show ?case by auto
next
  case (2 out b)
  have "length (concat (map hex_pair ds)) = 2 * length ds" for ds
    by (induction ds) (simp_all add: hex_pair_def)
  then have "[to_lower_hex b] \<noteq> concat (map hex_pair ds)" for ds
    by (metis One_nat_def dvd_triv_left even_Suc length_Cons list.size(3) odd_one)
  then show ?case by simp
next
  case (3 out b c rest)
  show ?case
  proof
    assume "hex_bytes_loop out (b # c # rest) = Inr r"
    then obtain hi lo where v: "hex_val b = Some hi" "hex_val c = Some lo"
      and rec: "hex_bytes_loop (out @ [push_bit 4 hi OR lo]) rest = Inr r"
      by (auto split: option.splits)
    from "3.IH" [OF v] rec obtain ds where "r = (out @ [push_bit 4 hi OR lo]) @ ds"
      and "map to_lower_hex rest = concat (map hex_pair ds)" by blast
    with v show "\<exists>ds. r = out @ ds \<and> map to_lower_hex (b # c # rest) = concat (map hex_pair ds)"
      using hex_val_Some [OF v(1)] hex_val_Some [OF v(2)]
      by (intro exI [of _ "(push_bit 4 hi OR lo) # ds"]) (simp add: hex_pair_join)
  next
    assume "\<exists>ds. r = out @ ds \<and> map to_lower_hex (b # c # rest) = concat (map hex_pair ds)"
    then obtain es where es: "r = out @ es" "map to_lower_hex (b # c # rest) = concat (map hex_pair es)"
      by blast
    then obtain d ds where "es = d # ds" by (cases es) simp_all
    with es have r: "r = out @ d # ds" and p: "hex_pair d = [to_lower_hex b, to_lower_hex c]"
      and rest: "map to_lower_hex rest = concat (map hex_pair ds)"
      by (simp_all add: hex_pair_def)
    from p have v: "hex_val b = Some (drop_bit 4 d)" "hex_val c = Some (d AND 0x0F)"
      using to_lower_hex_digit hi_nibble_less lo_nibble_less by (auto simp: hex_pair_def)
    with "3.IH" [OF v, of r] r rest show "hex_bytes_loop out (b # c # rest) = Inr r"
      by (simp add: nibbles_join)
  qed
qed

lemma hex_to_bytes_Inr_iff:
  "hex_to_bytes s = Inr bs \<longleftrightarrow>
     map to_lower_hex (as_bytes (hex_filtered s)) = as_bytes (hex_lower bs)"
proof -
  have "length (hex_filtered s) mod 2 = 0"
    if "map to_lower_hex (as_bytes (hex_filtered s)) = as_bytes (hex_lower bs)"
  proof -
    have "length (hex_filtered s) = length (hex_lower bs)"
      using arg_cong [OF that, of length] by simp
    then show ?thesis by (simp add: length_hex_lower)
  qed
  then show ?thesis
    by (auto simp: hex_to_bytes_def Let_def hex_bytes_loop_Inr hex_lower_eq)
qed

text \<open>C28: \<open>hex_to_bytes\<close> accepts exactly the texts that, with white space removed and letters
  lower-cased, are the rendering of a byte vector, and returns that vector; in particular it inverts
  the rendering the transports use.\<close>

theorem hex_to_bytes_iff:
  "(hex_to_bytes s = Inr bs \<longleftrightarrow>
      map to_lower_hex (as_bytes (hex_filtered s)) = as_bytes (hex_lower bs))
   \<and> hex_to_bytes (hex_lower bs) = Inr bs"
  by (simp add: hex_to_bytes_Inr_iff [of s]) 

section \<open>The contract of the service\<close>

text \<open>
  What the transports rely on: a ping is answered by the pong with its id and changes nothing,
  listing answers with interfaces or an error, sending answers with an acknowledgement.
\<close>

locale request_handler =
  fixes serve :: "ClientRequest \<Rightarrow> 'd \<Rightarrow> DaemonResponse \<times> 'd"
  assumes serve_ping: "serve (ClientRequest.Ping n) d = (DaemonResponse.Pong n, d)"
    and serve_list: "(\<exists>items. fst (serve ClientRequest.ListIfaces d) = DaemonResponse.Ifaces items)
      \<or> (\<exists>e. fst (serve ClientRequest.ListIfaces d) = DaemonResponse.Error e)"
    and serve_send: "\<exists>ok e. fst (serve (ClientRequest.SendFrame iface i is_fd brs esi data_hex) d)
      = DaemonResponse.SendAck ok e"
begin

lemma serve_list_cases [case_names Items Failed]:
  obtains items d' where "serve ClientRequest.ListIfaces d = (DaemonResponse.Ifaces items, d')"
  | e d' where "serve ClientRequest.ListIfaces d = (DaemonResponse.Error e, d')"
  using serve_list [of d] by (cases "serve ClientRequest.ListIfaces d") auto

lemma serve_send_cases [case_names Ack]:
  obtains ok e d' where "serve (ClientRequest.SendFrame iface i is_fd brs esi data_hex) d
      = (DaemonResponse.SendAck ok e, d')"
  using serve_send [of iface i is_fd brs esi data_hex d]
  by (cases "serve (ClientRequest.SendFrame iface i is_fd brs esi data_hex) d") auto

end

interpretation bridge: request_handler "handle ports" for ports :: "'w ports"
proof unfold_locales
  show "(\<exists>items. fst (handle ports ClientRequest.ListIfaces d) = DaemonResponse.Ifaces items)
      \<or> (\<exists>e. fst (handle ports ClientRequest.ListIfaces d) = DaemonResponse.Error e)" for d
    by (auto split: prod.split sum.split)
  show "\<exists>ok e. fst (handle ports (ClientRequest.SendFrame iface i is_fd brs esi data_hex) d)
      = DaemonResponse.SendAck ok e" for iface i is_fd brs esi data_hex d
    by (auto split: prod.split sum.split)
qed simp

section \<open>What requests do to the bridge\<close>

lemma handle_publishes_cases:
  assumes "handle ports req d = (resp, d')"
  shows "(published d' = published d \<and> (\<forall>e. resp \<noteq> DaemonResponse.SendAck True e)) \<or>
    (\<exists>iface i is_fd brs esi data_hex data.
       req = ClientRequest.SendFrame iface i is_fd brs esi data_hex
       \<and> hex_to_bytes data_hex = Inr data
       \<and> can_send ports iface i is_fd brs esi data (world d) = (Inr (), world d')
       \<and> resp = DaemonResponse.SendAck True None
       \<and> published d' = published d @
           [\<lparr>ev_ts_ms = now_ms (system_time ports (world d')), ev_iface = iface, ev_dir = Tx,
             ev_id = i, ev_is_fd = is_fd, ev_data = data\<rparr>])"
  using assms
  by (cases req) (auto simp: publish_frame_def split: sum.splits prod.splits)

text \<open>The event of a frame that the transmit port accepted between two states of the world.\<close>

definition transmitted :: "'w ports \<Rightarrow> 'w bridge \<Rightarrow> 'w bridge \<Rightarrow> frame_event \<Rightarrow> bool" where
  "transmitted ports d d' ev \<longleftrightarrow> ev_dir ev = Tx \<and> ev_ts_ms ev = now_ms (system_time ports (world d'))
     \<and> (\<exists>brs esi. can_send ports (ev_iface ev) (ev_id ev) (ev_is_fd ev) brs esi (ev_data ev) (world d) = (Inr (), world d'))"

text \<open>The bridge after at most one request to the service.\<close>

definition serviced :: "'w ports \<Rightarrow> 'w bridge \<Rightarrow> 'w bridge \<Rightarrow> bool" where
  "serviced ports d d' \<longleftrightarrow> d' = d \<or> (\<exists>req. d' = snd (handle ports req d))"

lemma serviced_refl [simp]: "serviced ports d d"
  by (simp add: serviced_def)

lemma serviced_handle: "handle ports req d = (resp, d') \<Longrightarrow> serviced ports d d'"
  by (metis serviced_def snd_conv)

lemma serviced_publishes:
  assumes "serviced ports d d'"
  shows "published d' = published d \<or> (\<exists>ev. published d' = published d @ [ev] \<and> transmitted ports d d' ev)"
proof (cases "d' = d")
  case False
  then obtain req resp where "handle ports req d = (resp, d')"
    using assms by (metis serviced_def prod.collapse)
  from handle_publishes_cases [OF this] show ?thesis by (force simp: transmitted_def)
qed simp

section \<open>Properties of request handling\<close>

text \<open>C29: A request is acknowledged and published exactly if it was carried out. Either the frame bus is left
  alone and the client is not told \<open>ok\<close>, or the request is a \<open>SendFrame\<close> whose payload decoded and whose
  frame the transmit port accepted, it is answered \<open>ok\<close> and exactly one transmit event with its
  interface, identifier, kind and decoded payload is appended. And whenever the payload decodes and the
  port accepts the frame, whatever its kind and flags, it is the second.\<close>

theorem handle_publishes_iff_acknowledged:
  assumes "handle ports req d = (resp, d')"
  shows "((published d' = published d \<and> (\<forall>e. resp \<noteq> DaemonResponse.SendAck True e)) \<or>
      (\<exists>iface i is_fd brs esi data_hex data.
         req = ClientRequest.SendFrame iface i is_fd brs esi data_hex
         \<and> hex_to_bytes data_hex = Inr data
         \<and> can_send ports iface i is_fd brs esi data (world d) = (Inr (), world d')
         \<and> resp = DaemonResponse.SendAck True None
         \<and> published d' = published d @
             [\<lparr>ev_ts_ms = now_ms (system_time ports (world d')), ev_iface = iface, ev_dir = Tx,
               ev_id = i, ev_is_fd = is_fd, ev_data = data\<rparr>]))
    \<and> (\<forall>iface i is_fd brs esi data_hex data w'.
         req = ClientRequest.SendFrame iface i is_fd brs esi data_hex \<longrightarrow> hex_to_bytes data_hex = Inr data
         \<longrightarrow> can_send ports iface i is_fd brs esi data (world d) = (Inr (), w')
         \<longrightarrow> resp = DaemonResponse.SendAck True None \<and> world d' = w'
           \<and> published d' = published d @
               [\<lparr>ev_ts_ms = now_ms (system_time ports w'), ev_iface = iface, ev_dir = Tx,
                 ev_id = i, ev_is_fd = is_fd, ev_data = data\<rparr>])"
  using handle_publishes_cases [OF assms] assms by (auto simp: publish_frame_def)

theorem handle_publishes_iff_acknowledged_witness:
  "\<exists>resp d'. handle \<lparr>list_can_ifaces = (\<lambda>w. (Inr [], w)), can_send = (\<lambda>_ _ _ _ _ _ w. (Inr (), Suc w)),
        system_time = (\<lambda>_. 5000000)\<rparr> (ClientRequest.SendFrame ''can0'' 0x123 True True False ''0aFF'')
      \<lparr>world = (0 :: nat), published = []\<rparr> = (resp, d')
    \<and> resp = DaemonResponse.SendAck True None \<and> world d' = 1
    \<and> published d' = [\<lparr>ev_ts_ms = 5, ev_iface = ''can0'', ev_dir = Tx, ev_id = 0x123, ev_is_fd = True,
         ev_data = [0x0A, 0xFF]\<rparr>]"
proof -
  let ?ports = "\<lparr>list_can_ifaces = (\<lambda>w. (Inr [], w)), can_send = (\<lambda>_ _ _ _ _ _ w. (Inr (), Suc w)),
        system_time = (\<lambda>_. 5000000)\<rparr> :: nat ports"
  let ?req = "ClientRequest.SendFrame ''can0'' 0x123 True True False ''0aFF''"
  have hex: "hex_to_bytes ''0aFF'' = Inr [0x0A, 0xFF]" by code_simp
  obtain resp d' where h: "handle ?ports ?req \<lparr>world = 0, published = []\<rparr> = (resp, d')" by (rule prod.exhaust)
  from handle_publishes_iff_acknowledged [OF h] hex
  have "resp = DaemonResponse.SendAck True None \<and> world d' = 1
    \<and> published d' = [\<lparr>ev_ts_ms = 5, ev_iface = ''can0'', ev_dir = Tx, ev_id = 0x123, ev_is_fd = True,
         ev_data = [0x0A, 0xFF]\<rparr>]"
    by (auto simp: now_ms_def)
  with h show ?thesis by blast
qed

text \<open>A payload text that is not hexadecimal is refused before anything else happens: the answer is a
  negative acknowledgement that names the reason, the transmit port is not called and nothing is
  published.\<close>

lemma handle_bad_hex:
  assumes "hex_to_bytes data_hex = Inl e"
  shows "handle ports (ClientRequest.SendFrame iface i is_fd brs esi data_hex) d
    = (DaemonResponse.SendAck False (Some (''bad data_hex: '' @ hex_error_text e)), d)
    \<and> (\<forall>bs. map to_lower_hex (as_bytes (hex_filtered data_hex)) \<noteq> as_bytes (hex_lower bs))"
proof -
  have "\<forall>bs. hex_to_bytes data_hex \<noteq> Inr bs" using assms by simp
  then have "\<forall>bs. map to_lower_hex (as_bytes (hex_filtered data_hex)) \<noteq> as_bytes (hex_lower bs)"
    by (simp add: hex_to_bytes_Inr_iff)
  with assms show ?thesis by simp
qed

end
