(* ===== verification/Session.thy ===== *)
theory Session
  imports Frame
begin

text \<open>
  What the four streaming transports share. A session is a reader, which turns input into
  requests, and a writer task, which owns the output. They share the subscription state (behind a
  mutex) and an unbounded channel of responses. The record \<open>session\<close> holds both ends: \<open>subs\<close>
  the subscription state, \<open>outgoing\<close> the responses sent and not yet received by the writer,
  \<open>sender_alive\<close> whether the reader still holds the sending end, \<open>writer_alive\<close> whether the
  writer task still runs (once it ends, the receiving end is gone and sends fail), and \<open>wire\<close>
  what was written so far, bytes or messages.

  The writer's \<open>select!\<close> picks either of its two receive operations when both are ready, so the
  order of its inputs is arbitrary: a run is a sequence of inputs, one per completed operation, and
  every property quantifies over all sequences. The result of each write is part of the input.
\<close>

section \<open>State and elementary operations\<close>

text \<open>\<open>IoFail n\<close>: the write failed after \<open>n\<close> units went out.\<close>

datatype io = IoOk | IoFail nat

text \<open>
  \<open>Recv\<close>: \<open>outgoing_receiver.recv()\<close> completed. \<open>BusEvent\<close>, \<open>BusLagged\<close>, \<open>BusClosed\<close>:
  \<open>frames_receiver.recv()\<close> returned a frame, \<open>Lagged\<close> or \<open>Closed\<close>.
\<close>

datatype writer_input = Recv io | BusEvent frame_event io | BusLagged u64 | BusClosed

record ('g, 'r, 'o) session =
  subs :: 'g
  outgoing :: "'r list"
  sender_alive :: bool
  writer_alive :: bool
  wire :: "'o list"

text \<open>\<open>outgoing_sender.send(r)\<close>, its error ignored.\<close>

definition enqueue :: "'r \<Rightarrow> ('g, 'r, 'o, 'm) session_scheme \<Rightarrow> ('g, 'r, 'o, 'm) session_scheme" where
  "enqueue r s = (if writer_alive s then s\<lparr>outgoing := outgoing s @ [r]\<rparr> else s)"

text \<open>The writer task ends: the receiving end is dropped with what it still held.\<close>

definition stop_writer :: "('g, 'r, 'o, 'm) session_scheme \<Rightarrow> ('g, 'r, 'o, 'm) session_scheme" where
  "stop_writer s = s\<lparr>writer_alive := False, outgoing := []\<rparr>"

definition write_out :: "io \<Rightarrow> 'o list \<Rightarrow> ('g, 'r, 'o, 'm) session_scheme \<Rightarrow> ('g, 'r, 'o, 'm) session_scheme" where
  "write_out io out s =
     (case io of
        IoOk \<Rightarrow> s\<lparr>wire := wire s @ out\<rparr>
      | IoFail n \<Rightarrow> stop_writer (s\<lparr>wire := wire s @ take n out\<rparr>))"

text \<open>\<open>drop(outgoing_sender)\<close>, or leaving the function that owns it.\<close>

definition drop_sender :: "('g, 'r, 'o, 'm) session_scheme \<Rightarrow> ('g, 'r, 'o, 'm) session_scheme" where
  "drop_sender s = s\<lparr>sender_alive := False\<rparr>"

lemmas session_op_defs = enqueue_def stop_writer_def write_out_def drop_sender_def

section \<open>Reference writer\<close>

text \<open>
  The writer the transports have in common, over the encoding of a response, the gate that decides
  whether a frame is forwarded, and the response a frame becomes. \<open>skip\<close> says what a response
  that cannot be encoded does: it is left out, or it ends the task.
\<close>

definition emit :: "bool \<Rightarrow> ('r \<Rightarrow> 'o list option) \<Rightarrow> io \<Rightarrow> 'r
    \<Rightarrow> ('g, 'r, 'o, 'm) session_scheme \<Rightarrow> ('g, 'r, 'o, 'm) session_scheme" where
  "emit skip enc io r s =
     (case enc r of
        None \<Rightarrow> if skip then s else stop_writer s
      | Some out \<Rightarrow> write_out io out s)"

definition writer_spec :: "bool \<Rightarrow> ('r \<Rightarrow> 'o list option) \<Rightarrow> ('g \<Rightarrow> frame_event \<Rightarrow> bool) \<Rightarrow> (frame_event \<Rightarrow> 'r)
    \<Rightarrow> writer_input \<Rightarrow> ('g, 'r, 'o, 'm) session_scheme \<Rightarrow> ('g, 'r, 'o, 'm) session_scheme" where
  "writer_spec skip enc gate to_resp input s =
     (if \<not> writer_alive s then s
      else case input of
        Recv io \<Rightarrow>
          (case outgoing s of
             [] \<Rightarrow> if sender_alive s then s else stop_writer s
           | r # rs \<Rightarrow> emit skip enc io r (s\<lparr>outgoing := rs\<rparr>))
      | BusEvent ev io \<Rightarrow> if gate (subs s) ev then emit skip enc io (to_resp ev) s else s
      | BusLagged n \<Rightarrow> s
      | BusClosed \<Rightarrow> stop_writer s)"

section \<open>Histories\<close>

text \<open>
  What a writer has written, as entries: the reply to a request, or a forwarded frame. \<open>explains\<close>
  ties a session state to its history: \<open>A\<close> the frames that were admitted at some point,
  \<open>E\<close> the responses the reader sent, \<open>log\<close> the entries written. While the writer runs, what
  it wrote and what is still queued are all of \<open>E\<close>; once it stopped, what it wrote is a prefix,
  and after the last complete entry there may be the beginning of the next reply or of a frame.
\<close>

datatype 'r entry = Reply 'r | Forwarded frame_event

fun entry_resp :: "(frame_event \<Rightarrow> 'r) \<Rightarrow> 'r entry \<Rightarrow> 'r" where
  "entry_resp to_resp (Reply r) = r"
| "entry_resp to_resp (Forwarded ev) = to_resp ev"

fun replies :: "'r entry list \<Rightarrow> 'r list" where
  "replies [] = []"
| "replies (Reply r # es) = r # replies es"
| "replies (Forwarded ev # es) = replies es"

lemma replies_append [simp]: "replies (xs @ ys) = replies xs @ replies ys"
  by (induction xs rule: replies.induct) simp_all

definition cut_of :: "('r \<Rightarrow> 'o list) \<Rightarrow> (frame_event \<Rightarrow> 'r) \<Rightarrow> frame_event set \<Rightarrow> 'r list \<Rightarrow> 'o list \<Rightarrow> bool" where
  "cut_of enc to_resp A rest partial \<longleftrightarrow>
     partial = [] \<or> (\<exists>x n. partial = take n (enc x) \<and> (x \<in> set (take 1 rest) \<or> x \<in> to_resp ` A))"

lemma cut_of_Nil [simp]: "cut_of enc to_resp A rest []"
  by (simp add: cut_of_def)

lemma cut_of_append: "cut_of enc to_resp A rest p \<Longrightarrow> cut_of enc to_resp A (rest @ rest') p"
  by (cases rest) (auto simp: cut_of_def)

lemma cut_of_mono: "cut_of enc to_resp A rest p \<Longrightarrow> A \<subseteq> B \<Longrightarrow> cut_of enc to_resp B rest p"
  unfolding cut_of_def by blast

lemma cut_of_reply: "cut_of enc to_resp A (r # rest) (take n (enc r))"
  by (auto simp: cut_of_def)

lemma cut_of_frame: "ev \<in> A \<Longrightarrow> cut_of enc to_resp A rest (take n (enc (to_resp ev)))"
  by (auto simp: cut_of_def)

definition explains :: "('r \<Rightarrow> 'o list option) \<Rightarrow> (frame_event \<Rightarrow> 'r) \<Rightarrow> frame_event set \<Rightarrow> 'r list
    \<Rightarrow> 'r entry list \<Rightarrow> ('g, 'r, 'o, 'm) session_scheme \<Rightarrow> bool" where
  "explains enc to_resp A E log s \<longleftrightarrow>
     (\<exists>partial rest.
        wire s = concat (map (\<lambda>e. the (enc (entry_resp to_resp e))) log) @ partial
        \<and> filter (\<lambda>r. enc r \<noteq> None) E = replies log @ rest
        \<and> (writer_alive s \<longrightarrow> partial = [] \<and> rest = filter (\<lambda>r. enc r \<noteq> None) (outgoing s))
        \<and> cut_of (\<lambda>r. the (enc r)) to_resp A rest partial)
     \<and> (\<forall>ev. Forwarded ev \<in> set log \<longrightarrow> ev \<in> A)"

lemma explains_enqueue: "explains enc to_resp A E log s \<Longrightarrow> explains enc to_resp A (E @ [r]) log (enqueue r s)"
  by (auto simp: explains_def enqueue_def intro: cut_of_append)

lemma explains_mono: "explains enc to_resp A E log s \<Longrightarrow> A \<subseteq> B \<Longrightarrow> explains enc to_resp B E log s"
  by (auto simp: explains_def intro: cut_of_mono)

lemma explains_stop: "explains enc to_resp A E log s \<Longrightarrow> explains enc to_resp A E log (stop_writer s)"
  by (auto simp: explains_def stop_writer_def)

text \<open>Only the output side of the state matters.\<close>

lemma explains_cong:
  "wire s' = wire s \<Longrightarrow> writer_alive s' = writer_alive s \<Longrightarrow> outgoing s' = outgoing s
    \<Longrightarrow> explains enc to_resp A E log s' \<longleftrightarrow> explains enc to_resp A E log s"
  by (simp add: explains_def)

text \<open>Writing one more entry: a reply that was at the head of the channel, or an admitted frame.\<close>

lemma explains_write_reply:
  assumes "explains enc to_resp A E log s" and "writer_alive s" and "outgoing s = r # rs" and "enc r = Some out"
  shows "\<exists>es\<in>{[], [Reply r]}. explains enc to_resp A E (log @ es) (write_out io out (s\<lparr>outgoing := rs\<rparr>))"
proof (cases io)
  case IoOk
  with assms show ?thesis by (intro bexI [of _ "[Reply r]"]) (auto simp: explains_def write_out_def)
next
  case (IoFail n)
  with assms show ?thesis
    using cut_of_reply [of "\<lambda>r. the (enc r)" to_resp A r _ n]
    by (intro bexI [of _ "[]"]) (auto simp: explains_def write_out_def stop_writer_def)
qed

lemma explains_write_frame:
  assumes "explains enc to_resp A E log s" and "writer_alive s" and "ev \<in> A" and "enc (to_resp ev) = Some out"
  shows "\<exists>es\<in>{[], [Forwarded ev]}. explains enc to_resp A E (log @ es) (write_out io out s)"
proof (cases io)
  case IoOk
  with assms show ?thesis by (intro bexI [of _ "[Forwarded ev]"]) (auto simp: explains_def write_out_def)
next
  case (IoFail n)
  with assms show ?thesis
    using cut_of_frame [OF assms(3), of "\<lambda>r. the (enc r)" to_resp _ n]
    by (intro bexI [of _ "[]"]) (auto simp: explains_def write_out_def stop_writer_def)
qed

lemma explains_skip_reply:
  assumes "explains enc to_resp A E log s" and "outgoing s = r # rs" and "enc r = None"
  shows "explains enc to_resp A E log (s\<lparr>outgoing := rs\<rparr>)"
  using assms by (auto simp: explains_def)

lemma explains_emit_reply:
  assumes "explains enc to_resp A E log s" and "writer_alive s" and "outgoing s = r # rs"
  shows "\<exists>es\<in>{[], [Reply r]}. explains enc to_resp A E (log @ es) (emit skip enc io r (s\<lparr>outgoing := rs\<rparr>))"
proof (cases "enc r")
  case None
  note skipped = explains_skip_reply [OF assms(1,3) None]
  from skipped explains_stop [OF skipped] None show ?thesis
    by (intro bexI [of _ "[]"]) (simp_all add: emit_def)
next
  case (Some out)
  with explains_write_reply [OF assms Some] show ?thesis by (simp add: emit_def)
qed

lemma explains_emit_frame:
  assumes "explains enc to_resp A E log s" and "writer_alive s" and "ev \<in> A"
  shows "\<exists>es\<in>{[], [Forwarded ev]}. explains enc to_resp A E (log @ es) (emit skip enc io (to_resp ev) s)"
proof (cases "enc (to_resp ev)")
  case None
  with assms(1) explains_stop [OF assms(1)] show ?thesis
    by (intro bexI [of _ "[]"]) (simp_all add: emit_def)
next
  case (Some out)
  with explains_write_frame [OF assms Some] show ?thesis by (simp add: emit_def)
qed

locale session_writer =
  fixes wstep :: "writer_input \<Rightarrow> ('g, 'r, 'o, 'm) session_scheme \<Rightarrow> ('g, 'r, 'o, 'm) session_scheme"
    and skip :: bool
    and enc :: "'r \<Rightarrow> 'o list option"
    and gate :: "'g \<Rightarrow> frame_event \<Rightarrow> bool"
    and to_resp :: "frame_event \<Rightarrow> 'r"
  assumes wstep_spec: "wstep input s = writer_spec skip enc gate to_resp input s"
begin

lemma explains_wstep:
  assumes "explains enc to_resp A E log s" and "\<And>ev. gate (subs s) ev \<Longrightarrow> ev \<in> A"
  shows "\<exists>es. explains enc to_resp A E (log @ es) (wstep input s)"
proof -
  have keep: "\<exists>es. explains enc to_resp A E (log @ es) t" if "explains enc to_resp A E log t" for t
    using that by (intro exI [of _ "[]"]) simp
  note stop = keep [OF explains_stop [OF assms(1)]] and same = keep [OF assms(1)]
  show ?thesis
  proof (cases "writer_alive s")
    case True
    show ?thesis
    proof (cases input)
      case (Recv io)
      have "\<exists>es. explains enc to_resp A E (log @ es) (emit skip enc io r (s\<lparr>outgoing := rs\<rparr>))" if "outgoing s = r # rs" for r rs
        using explains_emit_reply [OF assms(1) True that] by blast
      with Recv True stop same show ?thesis
        by (auto simp: wstep_spec writer_spec_def split: list.split)
    next
      case (BusEvent ev io)
      have "\<exists>es. explains enc to_resp A E (log @ es) (emit skip enc io (to_resp ev) s)" if "gate (subs s) ev"
        using explains_emit_frame [OF assms(1) True assms(2) [OF that]] by blast
      with BusEvent True same show ?thesis
        by (auto simp: wstep_spec writer_spec_def)
    qed (use True stop same in \<open>simp_all add: wstep_spec writer_spec_def\<close>)
  qed (use same in \<open>simp add: wstep_spec writer_spec_def\<close>)
qed

text \<open>Fields the writer never touches.\<close>

lemma wstep_subs [simp]: "subs (wstep input s) = subs s"
  by (auto simp: wstep_spec writer_spec_def emit_def session_op_defs split: writer_input.split list.split
      option.split io.split)

lemma wstep_more [simp]: "session.more (wstep input s) = session.more s"
  by (auto simp: wstep_spec writer_spec_def emit_def session_op_defs split: writer_input.split list.split
      option.split io.split)

text \<open>A running writer that is left to receive writes everything that is queued.\<close>

lemma recv_all:
  assumes "writer_alive s" and "\<forall>r\<in>set (outgoing s). enc r \<noteq> None"
  shows "(wstep (Recv IoOk) ^^ length (outgoing s)) s =
    s\<lparr>wire := wire s @ concat (map (\<lambda>r. the (enc r)) (outgoing s)), outgoing := []\<rparr>"
  using assms
proof (induction "outgoing s" arbitrary: s)
  case (Cons r rs)
  then obtain out where out: "enc r = Some out" by (metis list.set_intros(1) option.exhaust)
  let ?s = "s\<lparr>wire := wire s @ out, outgoing := rs\<rparr>"
  have "wstep (Recv IoOk) s = ?s"
    using Cons.hyps(2) [symmetric] Cons.prems(1) out
    by (simp add: wstep_spec writer_spec_def emit_def write_out_def)
  moreover have "(wstep (Recv IoOk) ^^ length rs) ?s =
      s\<lparr>wire := wire s @ out @ concat (map (\<lambda>r. the (enc r)) rs), outgoing := []\<rparr>"
    using Cons.hyps(1) [of ?s] Cons.prems Cons.hyps(2) [symmetric] by simp
  ultimately show ?case
    using Cons.hyps(2) [symmetric] out by (simp add: funpow_swap1)
qed simp

end

section \<open>Subscriptions\<close>

text \<open>
  The interface of the subscription state: \<open>update\<close> replaces the subscription, \<open>clear\<close> drops it,
  \<open>passes u\<close> is what a client that subscribed to \<open>u\<close> is promised. A reader applies one
  operation after another (\<open>None\<close>: a request that does not touch the subscription); only the last
  one counts.
\<close>

datatype 'u sub_op = Sub 'u | Unsub

fun last_op :: "'u sub_op option list \<Rightarrow> 'u sub_op option" where
  "last_op [] = None"
| "last_op (x # xs) = (case last_op xs of None \<Rightarrow> x | Some y \<Rightarrow> Some y)"

lemma last_op_mem: "last_op xs = Some y \<Longrightarrow> Some y \<in> set xs"
  by (induction xs) (auto split: option.splits)

definition apply_op :: "('g \<Rightarrow> 'u \<Rightarrow> 'g) \<Rightarrow> ('g \<Rightarrow> 'g) \<Rightarrow> 'u sub_op option \<Rightarrow> 'g \<Rightarrow> 'g" where
  "apply_op update clear x g = (case x of None \<Rightarrow> g | Some (Sub u) \<Rightarrow> update g u | Some Unsub \<Rightarrow> clear g)"

locale subscription_gate =
  fixes update :: "'g \<Rightarrow> 'u \<Rightarrow> 'g"
    and clear :: "'g \<Rightarrow> 'g"
    and should_send :: "'g \<Rightarrow> frame_event \<Rightarrow> bool"
    and passes :: "'u \<Rightarrow> frame_event \<Rightarrow> bool"
    and initial :: 'g
  assumes send_update: "should_send (update g u) ev \<longleftrightarrow> passes u ev"
    and send_clear: "\<not> should_send (clear g) ev"
    and send_initial: "\<not> should_send initial ev"
begin

lemma last_op_decides_from:
  "should_send (fold (apply_op update clear) xs g) ev \<longleftrightarrow>
     (case last_op xs of None \<Rightarrow> should_send g ev | Some (Sub u) \<Rightarrow> passes u ev | Some Unsub \<Rightarrow> False)"
proof (induction xs arbitrary: g)
  case (Cons x xs)
  then show ?case
    by (cases x) (auto simp: apply_op_def send_update send_clear split: option.splits sub_op.splits)
qed simp

lemma last_op_decides:
  "should_send (fold (apply_op update clear) xs initial) ev \<longleftrightarrow> (\<exists>u. last_op xs = Some (Sub u) \<and> passes u ev)"
  by (auto simp: last_op_decides_from send_initial split: option.splits sub_op.splits)

end

section \<open>Sessions\<close>

text \<open>
  A transport is a writer, a subscription gate and a dispatcher of inputs; every input is answered by
  one response and may change the subscription. \<open>served pre qs s\<close>: the reader sent \<open>pre\<close> and then
  answered the inputs \<open>qs\<close>, and the state is what that and the writer can have led to.
\<close>

definition admitted :: "('q \<Rightarrow> 'u sub_op option) \<Rightarrow> ('u \<Rightarrow> frame_event \<Rightarrow> bool) \<Rightarrow> 'q list \<Rightarrow> frame_event set" where
  "admitted op_of passes qs = {ev. \<exists>q\<in>set qs. \<exists>u. op_of q = Some (Sub u) \<and> passes u ev}"

definition served :: "('r \<Rightarrow> 'o list option) \<Rightarrow> (frame_event \<Rightarrow> 'r) \<Rightarrow> ('q \<Rightarrow> 'r \<Rightarrow> bool) \<Rightarrow> ('q \<Rightarrow> 'u sub_op option)
    \<Rightarrow> ('u \<Rightarrow> frame_event \<Rightarrow> bool) \<Rightarrow> ('u sub_op option \<Rightarrow> 'g \<Rightarrow> 'g) \<Rightarrow> 'g
    \<Rightarrow> 'r list \<Rightarrow> 'q list \<Rightarrow> ('g, 'r, 'o, 'm) session_scheme \<Rightarrow> bool" where
  "served enc to_resp reply op_of passes app initial pre qs s \<longleftrightarrow> (\<exists>resps log. list_all2 reply qs resps
     \<and> explains enc to_resp (admitted op_of passes qs) (pre @ resps) log s
     \<and> subs s = fold app (map op_of qs) initial)"

text \<open>
  What a client can rely on. The reader sent \<open>pre\<close> and then one fitting reply per input, in input
  order. What the writer wrote as replies, followed by what it has not written, is all of that (less
  what cannot be encoded); as long as the writer runs, what it has not written is what is queued. The
  output is the encoding of these replies interleaved with forwarded frames, each of them asked for
  by an earlier subscription (and, if the writer stopped in the middle of a write, part of one more).
  Which frames are forwarded from now on is decided by the last subscription request alone.
\<close>

definition answered :: "('r \<Rightarrow> 'o list option) \<Rightarrow> (frame_event \<Rightarrow> 'r) \<Rightarrow> ('q \<Rightarrow> 'r \<Rightarrow> bool)
    \<Rightarrow> ('q \<Rightarrow> 'u sub_op option) \<Rightarrow> ('u \<Rightarrow> frame_event \<Rightarrow> bool) \<Rightarrow> ('g \<Rightarrow> frame_event \<Rightarrow> bool)
    \<Rightarrow> 'r list \<Rightarrow> 'q list \<Rightarrow> ('g, 'r, 'o, 'm) session_scheme \<Rightarrow> bool" where
  "answered enc to_resp reply op_of passes should_send pre qs s \<longleftrightarrow>
     (\<exists>resps log partial unwritten.
        list_all2 reply qs resps
        \<and> filter (\<lambda>r. enc r \<noteq> None) (pre @ resps) = replies log @ unwritten
        \<and> wire s = concat (map (\<lambda>e. the (enc (entry_resp to_resp e))) log) @ partial
        \<and> (writer_alive s \<longrightarrow> partial = [] \<and> unwritten = filter (\<lambda>r. enc r \<noteq> None) (outgoing s))
        \<and> cut_of (\<lambda>r. the (enc r)) to_resp (admitted op_of passes qs) unwritten partial
        \<and> (\<forall>ev. Forwarded ev \<in> set log \<longrightarrow> ev \<in> admitted op_of passes qs))
     \<and> (\<forall>ev. should_send (subs s) ev \<longleftrightarrow> (\<exists>u. last_op (map op_of qs) = Some (Sub u) \<and> passes u ev))"

lemma admitted_Nil [simp]: "admitted op_of passes [] = {}"
  by (simp add: admitted_def)

lemma enqueue_subs [simp]: "subs (enqueue r s) = subs s"
  by (simp add: enqueue_def)

lemma served_cong:
  assumes "wire s' = wire s" and "writer_alive s' = writer_alive s" and "outgoing s' = outgoing s"
    and "subs s' = subs s"
  shows "served enc to_resp reply op_of passes app initial pre qs s'
    \<longleftrightarrow> served enc to_resp reply op_of passes app initial pre qs s"
  using assms by (simp add: served_def explains_cong [OF assms(1-3)])

lemma served_start:
  assumes "wire s = []" and "outgoing s = []" and "subs s = initial"
  shows "served enc to_resp reply op_of passes app initial [] [] s"
  using assms by (auto simp: served_def explains_def intro!: exI [of _ "[]"])

lemma served_pre:
  assumes "served enc to_resp reply op_of passes app initial pre [] s"
  shows "served enc to_resp reply op_of passes app initial (pre @ [r]) [] (enqueue r s)"
  using assms explains_enqueue [of enc to_resp "{}" pre _ s r] by (fastforce simp: served_def)

text \<open>With no request served, only what was sent on its own can have been written.\<close>

lemma served_none:
  assumes "served (\<lambda>r. Some (enc r)) to_resp reply op_of passes app initial [] [] s"
  shows "wire s = [] \<and> subs s = initial \<and> (writer_alive s \<longrightarrow> outgoing s = [])"
proof -
  obtain log partial rest where w: "wire s = concat (map (\<lambda>e. enc (entry_resp to_resp e)) log) @ partial"
    and r: "[] = replies log @ rest" and l: "writer_alive s \<longrightarrow> rest = outgoing s"
    and p: "cut_of enc to_resp {} rest partial"
    and f: "\<forall>ev. Forwarded ev \<notin> set log" and g: "subs s = initial"
    using assms by (auto simp: served_def explains_def)
  have "log = []" using r f by (cases log rule: replies.cases) auto
  with w r l p g show ?thesis by (auto simp: cut_of_def)
qed

lemma served_one:
  assumes "served enc to_resp reply op_of passes app initial [r] [] s" and "enc r = Some out"
  shows "\<exists>rest. wire s @ rest = out" and "subs s = initial"
proof -
  obtain log partial unwritten where u: "[r] = replies log @ unwritten"
    and w: "wire s = concat (map (\<lambda>e. the (enc (entry_resp to_resp e))) log) @ partial"
    and p: "cut_of (\<lambda>r. the (enc r)) to_resp {} unwritten partial"
    and f: "\<forall>ev. Forwarded ev \<notin> set log"
    using assms by (auto simp: served_def explains_def)
  from f have "log = map Reply (replies log)" by (induction log rule: replies.induct) auto
  with u consider "log = []" "unwritten = [r]" | "log = [Reply r]" "unwritten = []"
    by (cases "replies log") auto
  then show "\<exists>rest. wire s @ rest = out"
  proof cases
    case 1
    with p assms(2) obtain n where "partial = take n out" by (auto simp: cut_of_def intro: that [of 0])
    with 1 w show ?thesis by (intro exI [of _ "drop n out"]) simp
  qed (use w p assms(2) in \<open>auto simp: cut_of_def\<close>)
  show "subs s = initial" using assms(1) by (simp add: served_def)
qed

locale streaming_session =
  session_writer wstep skip enc should_send to_resp + subscription_gate update clear should_send passes initial
  for wstep :: "writer_input \<Rightarrow> ('g, 'r, 'o, 'm) session_scheme \<Rightarrow> ('g, 'r, 'o, 'm) session_scheme"
    and skip :: bool
    and enc :: "'r \<Rightarrow> 'o list option"
    and should_send :: "'g \<Rightarrow> frame_event \<Rightarrow> bool"
    and to_resp :: "frame_event \<Rightarrow> 'r"
    and update :: "'g \<Rightarrow> 'u \<Rightarrow> 'g"
    and clear :: "'g \<Rightarrow> 'g"
    and passes :: "'u \<Rightarrow> frame_event \<Rightarrow> bool"
    and initial :: 'g +
  fixes dispatch :: "'q \<Rightarrow> ('g, 'r, 'o, 'm) session_scheme \<times> 'd \<Rightarrow> ('g, 'r, 'o, 'm) session_scheme \<times> 'd"
    and reply :: "'q \<Rightarrow> 'r \<Rightarrow> bool"
    and op_of :: "'q \<Rightarrow> 'u sub_op option"
  assumes dispatch_spec: "\<exists>r d'. reply q r \<and>
      dispatch q (s, d) = (enqueue r (s\<lparr>subs := apply_op update clear (op_of q) (subs s)\<rparr>), d')"
begin

abbreviation served_here :: "'r list \<Rightarrow> 'q list \<Rightarrow> ('g, 'r, 'o, 'm) session_scheme \<Rightarrow> bool" where
  "served_here \<equiv> served enc to_resp reply op_of passes (apply_op update clear) initial"

lemma gate_admits:
  "subs s = fold (apply_op update clear) (map op_of qs) initial \<Longrightarrow> should_send (subs s) ev
    \<Longrightarrow> ev \<in> admitted op_of passes qs"
  by (force simp: admitted_def last_op_decides dest!: last_op_mem)

lemma served_wstep:
  assumes "served_here pre qs s"
  shows "served_here pre qs (wstep input s)"
proof -
  obtain resps log where h: "list_all2 reply qs resps"
    and e: "explains enc to_resp (admitted op_of passes qs) (pre @ resps) log s"
    and g: "subs s = fold (apply_op update clear) (map op_of qs) initial"
    using assms by (auto simp: served_def)
  from explains_wstep [OF e gate_admits [OF g], of input] h g show ?thesis
    unfolding served_def wstep_subs by blast
qed

lemma served_dispatch:
  assumes "served_here pre qs s" and "dispatch q (s, d) = (s', d')"
  shows "served_here pre (qs @ [q]) s'"
proof -
  obtain resps log where h: "list_all2 reply qs resps"
    and e: "explains enc to_resp (admitted op_of passes qs) (pre @ resps) log s"
    and g: "subs s = fold (apply_op update clear) (map op_of qs) initial"
    using assms(1) by (auto simp: served_def)
  obtain r where a: "reply q r"
    and s': "s' = enqueue r (s\<lparr>subs := apply_op update clear (op_of q) (subs s)\<rparr>)"
    using dispatch_spec [of q s d] assms(2) by auto
  have "admitted op_of passes qs \<subseteq> admitted op_of passes (qs @ [q])" by (auto simp: admitted_def)
  from explains_mono [OF e this]
  have "explains enc to_resp (admitted op_of passes (qs @ [q])) (pre @ resps) log
      (s\<lparr>subs := apply_op update clear (op_of q) (subs s)\<rparr>)"
    by (rule explains_cong [THEN iffD2, rotated 3]) simp_all
  from explains_enqueue [OF this, of r] h a g s'
  show ?thesis
    unfolding served_def by (intro exI [of _ "resps @ [r]"] exI [of _ log]) (auto intro: list_all2_appendI)
qed

lemma served_answered:
  assumes "served_here pre qs s"
  shows "answered enc to_resp reply op_of passes should_send pre qs s"
proof -
  obtain resps log where "list_all2 reply qs resps"
    and "explains enc to_resp (admitted op_of passes qs) (pre @ resps) log s"
    and "subs s = fold (apply_op update clear) (map op_of qs) initial"
    using assms by (auto simp: served_def)
  then show ?thesis unfolding answered_def explains_def by (simp only: last_op_decides) blast
qed

end

end
