(* ===== verification/Delivery.thy ===== *)
theory Delivery
  imports Session "HOL-Library.Sublist"
begin

text \<open>
  What a writer's output says about the frames it was given. \<open>written\<close> ties the output of a session
  to a list of frame events: the output is a sequence of encoded replies and frames, and the frames
  among them are a subsequence of the given events, so none is invented, repeated or reordered.
  \<open>is_reply\<close> tells the responses a reader sends from those that carry frames.
\<close>

fun frames :: "'r entry list \<Rightarrow> frame_event list" where
  "frames [] = []"
| "frames (Reply r # es) = frames es"
| "frames (Forwarded ev # es) = ev # frames es"

lemma frames_append [simp]: "frames (xs @ ys) = frames xs @ frames ys"
  by (induction xs rule: frames.induct) simp_all

definition written :: "('r \<Rightarrow> 'o list option) \<Rightarrow> (frame_event \<Rightarrow> 'r) \<Rightarrow> ('r \<Rightarrow> bool) \<Rightarrow> frame_event list
    \<Rightarrow> ('g, 'r, 'o, 'm) session_scheme \<Rightarrow> bool" where
  "written enc to_resp is_reply fs s \<longleftrightarrow>
     (\<exists>log partial.
        wire s = concat (map (\<lambda>e. the (enc (entry_resp to_resp e))) log) @ partial
        \<and> (writer_alive s \<longrightarrow> partial = [])
        \<and> (partial = [] \<or> (\<exists>x n. partial = take n (the (enc x)) \<and> (is_reply x \<or> x \<in> to_resp ` set fs)))
        \<and> subseq (frames log) fs
        \<and> list_all is_reply (replies log))
     \<and> list_all is_reply (outgoing s)"

lemma written_start: "wire s = [] \<Longrightarrow> list_all is_reply (outgoing s) \<Longrightarrow> written enc to_resp is_reply [] s"
  by (auto simp: written_def intro!: exI [of _ "[]"])

lemma written_mono:
  assumes "written enc to_resp is_reply fs s" and "subseq fs gs"
  shows "written enc to_resp is_reply gs s"
proof -
  have "set fs \<subseteq> set gs" by (rule subsetI, erule list_emb_set [OF assms(2)]) simp
  moreover obtain log partial where
    "wire s = concat (map (\<lambda>e. the (enc (entry_resp to_resp e))) log) @ partial" "writer_alive s \<longrightarrow> partial = []"
    "partial = [] \<or> (\<exists>x n. partial = take n (the (enc x)) \<and> (is_reply x \<or> x \<in> to_resp ` set fs))"
    "subseq (frames log) fs" "list_all is_reply (replies log)" "list_all is_reply (outgoing s)"
    using assms(1) unfolding written_def by blast
  moreover from this(4) assms(2) have "subseq (frames log) gs" by (rule subseq_order.trans)
  ultimately show ?thesis
    unfolding written_def by (intro conjI exI [of _ log] exI [of _ partial]) blast+
qed

lemma subseq_append_left: "subseq xs (xs @ ys)"
  by (rule subseq_rev_drop_many) simp

lemma written_later: "written enc to_resp is_reply fs s \<Longrightarrow> written enc to_resp is_reply (fs @ gs) s"
  by (erule written_mono) (rule subseq_append_left)

text \<open>The reader leaves the output alone and only sends replies.\<close>

definition only_sends :: "('r \<Rightarrow> bool) \<Rightarrow> ('g, 'r, 'o, 'm) session_scheme \<Rightarrow> ('g, 'r, 'o, 'm) session_scheme \<Rightarrow> bool" where
  "only_sends is_reply s s' \<longleftrightarrow> wire s' = wire s \<and> writer_alive s' = writer_alive s
     \<and> (\<exists>rs. outgoing s' = outgoing s @ rs \<and> list_all is_reply rs)"

lemma only_sends_refl [simp]: "only_sends is_reply s s"
  by (simp add: only_sends_def)

lemma only_sends_cong:
  "wire s' = wire s \<Longrightarrow> writer_alive s' = writer_alive s \<Longrightarrow> outgoing s' = outgoing s \<Longrightarrow> only_sends is_reply s s'"
  by (simp add: only_sends_def)

lemma only_sends_enqueue:
  "only_sends is_reply s t \<Longrightarrow> is_reply r \<Longrightarrow> only_sends is_reply s (enqueue r t)"
  by (auto simp: only_sends_def enqueue_def)

lemma enqueue_effect:
  "wire (enqueue r s) = wire s" "writer_alive (enqueue r s) = writer_alive s"
  "outgoing (enqueue r s) = outgoing s @ (if writer_alive s then [r] else [])"
  by (simp_all add: enqueue_def)

lemmas sends_simps = only_sends_def enqueue_effect drop_sender_def

lemma written_only_sends:
  "written enc to_resp is_reply fs s \<Longrightarrow> only_sends is_reply s s' \<Longrightarrow> written enc to_resp is_reply fs s'"
  by (auto simp: written_def only_sends_def)

section \<open>What is added\<close>

text \<open>
  From one state of a session to a later one whose writer still runs: the output grew by some replies
  and exactly the given frames, and the replies written and those queued now are the ones queued
  before and those sent since.
\<close>

definition adds :: "('r \<Rightarrow> 'o list option) \<Rightarrow> (frame_event \<Rightarrow> 'r) \<Rightarrow> ('r \<Rightarrow> bool) \<Rightarrow> frame_event list
    \<Rightarrow> ('g, 'r, 'o, 'm) session_scheme \<Rightarrow> ('g, 'r, 'o, 'm) session_scheme \<Rightarrow> bool" where
  "adds enc to_resp is_reply fs s s' \<longleftrightarrow> (writer_alive s' \<longrightarrow> writer_alive s \<and> (\<exists>log rs.
     wire s' = wire s @ concat (map (\<lambda>e. the (enc (entry_resp to_resp e))) log) \<and> frames log = fs
     \<and> replies log @ outgoing s' = outgoing s @ rs \<and> list_all is_reply rs))"

lemma addsI:
  "writer_alive s \<Longrightarrow> wire s' = wire s @ concat (map (\<lambda>e. the (enc (entry_resp to_resp e))) log) \<Longrightarrow> frames log = fs
    \<Longrightarrow> replies log @ outgoing s' = outgoing s @ rs \<Longrightarrow> list_all is_reply rs \<Longrightarrow> adds enc to_resp is_reply fs s s'"
  unfolding adds_def by blast

lemma adds_refl [simp]: "adds enc to_resp is_reply [] s s"
  by (auto simp: adds_def intro!: exI [of _ "[]"])

lemma adds_stop [simp]: "adds enc to_resp is_reply fs s (stop_writer t)"
  by (simp add: adds_def stop_writer_def)

lemma adds_trans:
  assumes "adds enc to_resp is_reply fs s t" and "adds enc to_resp is_reply gs t u"
  shows "adds enc to_resp is_reply (fs @ gs) s u"
proof (cases "writer_alive u")
  case True
  with assms obtain log rs log' rs' where
    "wire t = wire s @ concat (map (\<lambda>e. the (enc (entry_resp to_resp e))) log)" "frames log = fs"
    "replies log @ outgoing t = outgoing s @ rs" "list_all is_reply rs"
    "wire u = wire t @ concat (map (\<lambda>e. the (enc (entry_resp to_resp e))) log')" "frames log' = gs"
    "replies log' @ outgoing u = outgoing t @ rs'" "list_all is_reply rs'" "writer_alive s"
    by (auto simp: adds_def)
  moreover from this(3,7) have "replies (log @ log') @ outgoing u = outgoing s @ rs @ rs'"
    by (metis append.assoc replies_append)
  ultimately show ?thesis
    unfolding adds_def by (intro impI conjI exI [of _ "log @ log'"] exI [of _ "rs @ rs'"]) simp_all
qed (simp add: adds_def)

lemma adds_only_sends:
  assumes "only_sends is_reply s s'"
  shows "adds enc to_resp is_reply [] s s'"
proof (cases "writer_alive s'")
  case True
  obtain rs where "outgoing s' = outgoing s @ rs" "list_all is_reply rs" using assms by (auto simp: only_sends_def)
  with assms True show ?thesis by (intro addsI [of _ _ _ _ "[]" _ rs]) (simp_all add: only_sends_def)
qed (simp add: adds_def)

section \<open>Writing\<close>

lemma written_stop: "written enc to_resp is_reply fs s \<Longrightarrow> written enc to_resp is_reply fs (stop_writer s)"
  by (auto simp: written_def stop_writer_def)

lemma written_write:
  assumes "written enc to_resp is_reply fs s" and "writer_alive s" and "enc (entry_resp to_resp e) = Some out"
    and "case e of Reply r \<Rightarrow> is_reply r \<and> gs = fs | Forwarded ev \<Rightarrow> gs = fs @ [ev]"
    and "wire t = wire s" and "writer_alive t" and "list_all is_reply (outgoing t)"
  shows "written enc to_resp is_reply gs (write_out io out t)"
proof -
  obtain log where w: "wire s = concat (map (\<lambda>e. the (enc (entry_resp to_resp e))) log)"
    and f: "subseq (frames log) fs" and r: "list_all is_reply (replies log)"
    using assms(1,2) by (auto simp: written_def)
  have sub: "subseq fs gs" using assms(4) by (auto split: entry.splits)
  show ?thesis
  proof (cases io)
    case IoOk
    have "subseq (frames (log @ [e])) gs" and "list_all is_reply (replies (log @ [e]))"
      using f r assms(4) by (auto simp: list_emb_append_mono split: entry.splits)
    with IoOk w assms(3,5,7) show ?thesis
      unfolding written_def by (intro conjI exI [of _ "log @ [e]"] exI [of _ "[]"]) (simp_all add: write_out_def)
  next
    case (IoFail n)
    have "is_reply (entry_resp to_resp e) \<or> entry_resp to_resp e \<in> to_resp ` set gs"
      using assms(4) by (auto split: entry.splits)
    moreover have "subseq (frames log) gs" using f sub by (rule subseq_order.trans)
    ultimately show ?thesis
      using IoFail w r assms(3,5) unfolding written_def
      by (intro conjI exI [of _ log] exI [of _ "take n out"])
        (force simp: write_out_def stop_writer_def intro!: exI [of _ "entry_resp to_resp e"] exI [of _ n])+
  qed
qed

fun bus_frames :: "writer_input \<Rightarrow> frame_event list" where
  "bus_frames (BusEvent ev io) = [ev]"
| "bus_frames _ = []"

context session_writer
begin

lemma written_wstep:
  assumes "written enc to_resp is_reply fs s"
  shows "written enc to_resp is_reply (fs @ bus_frames input) (wstep input s)"
proof (cases "writer_alive s")
  case False
  then show ?thesis using written_later [OF assms] by (simp add: wstep_spec writer_spec_def)
next
  case True
  note later = written_later [OF assms, of "bus_frames input"]
  show ?thesis
  proof (cases input)
    case (Recv io)
    show ?thesis
    proof (cases "outgoing s")
      case Nil
      with Recv True assms show ?thesis by (simp add: wstep_spec writer_spec_def written_stop)
    next
      case (Cons r rs)
      have r: "is_reply r" "list_all is_reply rs" using assms Cons by (simp_all add: written_def)
      then have same: "written enc to_resp is_reply fs (s\<lparr>outgoing := rs\<rparr>)" using assms by (simp add: written_def)
      show ?thesis
      proof (cases "enc r")
        case None
        with Recv Cons True same show ?thesis
          by (simp add: wstep_spec writer_spec_def emit_def written_stop)
      next
        case (Some out)
        with written_write [OF assms True, of "Reply r" out fs "s\<lparr>outgoing := rs\<rparr>" io] Recv Cons True r show ?thesis
          by (simp add: wstep_spec writer_spec_def emit_def)
      qed
    qed
  next
    case (BusEvent ev io)
    show ?thesis
    proof (cases "gate (subs s) ev \<and> enc (to_resp ev) \<noteq> None")
      case True
      then obtain out where "enc (to_resp ev) = Some out" by blast
      with written_write [OF assms \<open>writer_alive s\<close>, of "Forwarded ev" out "fs @ [ev]" s io] True \<open>writer_alive s\<close>
        assms BusEvent show ?thesis
        by (simp add: wstep_spec writer_spec_def emit_def written_def [of _ _ _ fs])
    next
      case False
      with BusEvent later True show ?thesis
        by (auto simp: wstep_spec writer_spec_def emit_def written_stop)
    qed
  qed (use later True in \<open>simp_all add: wstep_spec writer_spec_def written_stop\<close>)
qed

text \<open>A running writer whose writes succeed writes an event that passes the gate, and nothing else.\<close>

lemma wstep_event:
  assumes "writer_alive s" and "enc (to_resp ev) = Some out"
  shows "wstep (BusEvent ev IoOk) s = (if gate (subs s) ev then s\<lparr>wire := wire s @ out\<rparr> else s)"
  using assms by (simp add: wstep_spec writer_spec_def emit_def write_out_def)

lemma wstep_reply:
  assumes "writer_alive s" and "outgoing s = r # rs" and "enc r = Some out"
  shows "wstep (Recv IoOk) s = s\<lparr>outgoing := rs, wire := wire s @ out\<rparr>"
  using assms by (simp add: wstep_spec writer_spec_def emit_def write_out_def)

text \<open>With responses that can all be encoded, a step adds exactly the events that pass the gate.\<close>

lemma adds_wstep:
  assumes "\<And>r. enc r \<noteq> None"
  shows "adds enc to_resp is_reply (filter (gate (subs s)) (bus_frames input)) s (wstep input s)"
proof (cases "writer_alive s")
  case True
  have w: "adds enc to_resp is_reply fs s (emit skip enc io (entry_resp to_resp e) t)"
    if "frames [e] = fs" "wire t = wire s" "replies [e] @ outgoing t = outgoing s" for fs e io t
  proof -
    obtain out where out: "enc (entry_resp to_resp e) = Some out" using assms by blast
    show ?thesis
    proof (cases io)
      case IoOk
      with out that True show ?thesis
        by (intro addsI [of _ _ _ _ "[e]" _ "[]"]) (simp_all add: emit_def write_out_def)
    qed (simp add: out adds_def emit_def write_out_def stop_writer_def)
  qed
  show ?thesis
  proof (cases input)
    case (Recv io)
    with True w [of "Reply _" "[]"] show ?thesis
      by (auto simp: wstep_spec writer_spec_def adds_stop split: list.split)
  next
    case (BusEvent ev io)
    with True w [of "Forwarded ev" "[ev]" s io] show ?thesis by (simp add: wstep_spec writer_spec_def)
  qed (use True in \<open>simp_all add: wstep_spec writer_spec_def adds_stop\<close>)
qed (simp add: adds_def wstep_spec writer_spec_def)

end

end
