(* ===== verification/Binary_Session.thy ===== *)
theory Binary_Session
  imports Codec_Stream Service Delivery
begin

text \<open>
  What the two binary transports promise of a request, whatever carries it: which answer it gets and
  what it does to the subscription. The transports' own dispatchers are proved against it.
\<close>

section \<open>Requests and their answers\<close>

text \<open>
  The answer to a request. \<open>ListIfaces\<close> and \<open>SendFrame\<close> report what the service returned for
  the same request (the payload rendered as lower-case hexadecimal) at the bridge state of that
  moment; the error texts for responses the service never gives are not among the answers.
\<close>

fun reply_to :: "'w ports \<Rightarrow> ClientBinaryRequest \<Rightarrow> DaemonBinaryResponse \<Rightarrow> bool" where
  "reply_to ports (ClientBinaryRequest.Ping i) r \<longleftrightarrow> r = DaemonBinaryResponse.Pong i"
| "reply_to ports ClientBinaryRequest.ListIfaces r \<longleftrightarrow>
     (\<exists>d. (\<exists>items. fst (handle ports ClientRequest.ListIfaces d) = DaemonResponse.Ifaces items
             \<and> r = DaemonBinaryResponse.Ifaces items)
        \<or> (\<exists>message. fst (handle ports ClientRequest.ListIfaces d) = DaemonResponse.Error message
             \<and> r = DaemonBinaryResponse.Error message))"
| "reply_to ports (ClientBinaryRequest.Subscribe ifaces) r \<longleftrightarrow> r = DaemonBinaryResponse.Subscribed ifaces"
| "reply_to ports ClientBinaryRequest.Unsubscribe r \<longleftrightarrow> r = DaemonBinaryResponse.Unsubscribed"
| "reply_to ports (ClientBinaryRequest.SendFrame iface i is_fd brs esi data) r \<longleftrightarrow>
     (\<exists>d ok error_message.
        fst (handle ports (ClientRequest.SendFrame iface i is_fd brs esi (hex_lower data)) d)
          = DaemonResponse.SendAck ok error_message
        \<and> r = DaemonBinaryResponse.SendAck ok error_message)"
| "reply_to ports (ClientBinaryRequest.ClientHello client protocol) r \<longleftrightarrow>
     (\<exists>message. r = DaemonBinaryResponse.Error message)"

text \<open>No answer carries a frame.\<close>

definition binary_reply :: "DaemonBinaryResponse \<Rightarrow> bool" where
  "binary_reply r \<longleftrightarrow> (case r of DaemonBinaryResponse.FrameEvent _ _ _ _ _ _ \<Rightarrow> False | _ \<Rightarrow> True)"

lemma reply_to_binary_reply: "reply_to ports q r \<Longrightarrow> binary_reply r"
  by (cases q) (auto simp: binary_reply_def)

fun subscription_op :: "ClientBinaryRequest \<Rightarrow> string list sub_op option" where
  "subscription_op (ClientBinaryRequest.Subscribe ifaces) = Some (Sub ifaces)"
| "subscription_op ClientBinaryRequest.Unsubscribe = Some Unsub"
| "subscription_op _ = None"

lemma subscription_op_Sub [simp]:
  "subscription_op q = Some (Sub ifaces) \<longleftrightarrow> q = ClientBinaryRequest.Subscribe ifaces"
  by (cases q) auto

text \<open>A subscription to interfaces admits their frames.\<close>

definition subscribes :: "string list \<Rightarrow> frame_event \<Rightarrow> bool" where
  "subscribes ifaces ev \<longleftrightarrow> ev_iface ev \<in> set ifaces"

section \<open>Bytes consumed as requests\<close>

text \<open>The bytes read are the requests handled, then what is still in the buffer.\<close>

definition consumed_as :: "bytes \<Rightarrow> bytes \<Rightarrow> ClientBinaryRequest list \<Rightarrow> bool" where
  "consumed_as read_bytes buffer ms \<longleftrightarrow> (\<exists>pre. read_bytes = pre @ buffer \<and> requests_in pre = (None, [], ms))"

lemma decode_client_from_Nil [simp]: "decode_client_from [] = Inr None"
  by (simp add: decode_client_from_def decode_packet_def HEADER_LEN_def)

lemma consumed_as_Nil: "consumed_as rb buf [] \<longleftrightarrow> rb = buf"
proof -
  have "pre = []" if "requests_in pre = (None, [], [])" for pre
    using that by (cases pre rule: requests.stream_cases) (auto simp: requests_in.simps [of pre] split: prod.splits)
  moreover have "requests_in [] = (None, [], [])" by (simp add: requests_in.simps [of "[]"])
  ultimately show ?thesis by (auto simp: consumed_as_def)
qed

lemma consumed_as_start: "consumed_as [] [] []"
  by (simp add: consumed_as_Nil)

lemma consumed_as_read: "consumed_as rb buf ms \<Longrightarrow> consumed_as (rb @ chunk) (buf @ chunk) ms"
  by (auto simp: consumed_as_def)

lemma consumed_as_decode:
  assumes "consumed_as rb buf ms" and "decode_client_from buf = Inr (Some (m, n))"
  shows "consumed_as rb (drop n buf) (ms @ [m])"
proof -
  obtain pre where pre: "rb = pre @ buf" "requests_in pre = (None, [], ms)"
    using assms(1) by (auto simp: consumed_as_def)
  from requests.msgs_consume [OF pre(2) assms(2)] pre(1) show ?thesis
    unfolding consumed_as_def by (intro exI [of _ "pre @ take n buf"]) simp
qed

lemma consumed_as_requests_in:
  assumes "consumed_as rb buf ms"
  shows "requests_in rb = (case requests_in buf of (e, rest, ms') \<Rightarrow> (e, rest, ms @ ms'))"
proof -
  obtain pre where "rb = pre @ buf" "requests_in pre = (None, [], ms)"
    using assms by (auto simp: consumed_as_def)
  then show ?thesis using requests.msgs_append [of pre buf] by simp
qed

lemma consumed_as_wait:
  "consumed_as rb buf ms \<Longrightarrow> decode_client_from buf = Inr None \<Longrightarrow> requests_in rb = (None, buf, ms)"
  by (simp add: consumed_as_requests_in requests_in.simps [of buf])

section \<open>A concrete exchange\<close>

text \<open>Ports that accept everything, and two requests, for evaluating sessions on concrete input.\<close>

definition accepting_ports :: "nat ports" where
  "accepting_ports = \<lparr>list_can_ifaces = (\<lambda>w. (Inr [''can0''], w)),
     can_send = (\<lambda>_ _ _ _ _ _ w. (Inr (), Suc w)), system_time = (\<lambda>_. 5000000)\<rparr>"

definition empty_bridge :: "nat bridge" where
  "empty_bridge = \<lparr>world = 0, published = []\<rparr>"

definition sample_hello :: ClientBinaryRequest where
  "sample_hello = ClientBinaryRequest.ClientHello ''tool'' ''1''"

definition sample_bytes :: bytes where
  "sample_bytes = client_packet sample_hello @ client_packet (ClientBinaryRequest.Ping 7)"

lemma sample_ok: "client_ok sample_hello" "client_ok (ClientBinaryRequest.Ping 7)"
  by (simp_all add: client_ok_def sample_hello_def string_ok_ascii)

lemma decode_sample:
  "decode_client_from sample_bytes = Inr (Some (sample_hello, length (client_packet sample_hello)))"
  "decode_client_from (client_packet (ClientBinaryRequest.Ping 7))
     = Inr (Some (ClientBinaryRequest.Ping 7, length (client_packet (ClientBinaryRequest.Ping 7))))"
  using decode_client_from_packet [OF sample_ok(1)] decode_client_from_packet [OF sample_ok(2), of "[]"]
  by (simp_all add: sample_bytes_def)

lemma client_packet_not_Nil [simp]: "client_packet m \<noteq> []"
proof -
  obtain t payload where "encode_client_payload m = Inr (t, payload)" by (rule encode_client_payload_total)
  then have "0 < length (client_packet m)" by (simp add: client_packet_eq HEADER_LEN_def)
  then show ?thesis by simp
qed

lemma sample_bytes_not_Nil [simp]: "sample_bytes \<noteq> []"
  by (simp add: sample_bytes_def)

end
