(* ===== verification/Tcp_Binary.thy ===== *)
theory Tcp_Binary
  imports Binary_Session
begin

text \<open>
  The binary session over TCP, \<open>src/infra/transport_tcp/tcp_binary.rs\<close>. The reader is a
  function of what \<open>read\<close> returns (no bytes means the peer closed), the writer a function of
  the inputs of \<open>Session\<close>; a session is any interleaving of the two with changes of the bridge
  by other tasks. One reader step is one read or the decoding and dispatch of one request, so the
  writer can run between any two requests, also of the same read.
\<close>

section \<open>Helpers\<close>

definition should_send_frame :: "string set \<Rightarrow> frame_event \<Rightarrow> bool" where
  "should_send_frame subscribed ev \<longleftrightarrow> ev_iface ev \<in> subscribed"

definition update_subscription_set :: "string set \<Rightarrow> string list \<Rightarrow> string set" where
  "update_subscription_set subscribed ifaces = foldl (\<lambda>set iface. insert iface set) {} ifaces"

definition clear_subscription_set :: "string set \<Rightarrow> string set" where
  "clear_subscription_set subscribed = {}"

definition frame_event_to_daemon_binary :: "frame_event \<Rightarrow> DaemonBinaryResponse" where
  "frame_event_to_daemon_binary ev =
     DaemonBinaryResponse.FrameEvent (ev_ts_ms ev) (ev_iface ev)
       (case ev_dir ev of Rx \<Rightarrow> ''rx'' | Tx \<Rightarrow> ''tx'') (ev_id ev) (ev_is_fd ev) (ev_data ev)"

definition bytes_to_hex_lower :: "bytes \<Rightarrow> string" where
  "bytes_to_hex_lower bs =
     (let out = foldl (\<lambda>out b. (out @ [LUT ! unat (drop_bit 4 b)]) @ [LUT ! unat (b AND 0x0F)]) [] bs
      in case from_utf8 out of None \<Rightarrow> '''' | Some s \<Rightarrow> s)"

section \<open>State\<close>

datatype session_error = ClientHelloTimeout | ClosedDuringHandshake | ReadError | DecodeError codec_error

text \<open>
  Where the reader is: waiting for bytes of the handshake, about to decode the next buffered request,
  waiting for more bytes, or done (the session function returned this result).
\<close>

datatype phase = Handshake | Decoding | Reading | Finished "(session_error, unit) result"

record tcp_binary = "(string set, DaemonBinaryResponse, u8) session" +
  receive_buffer :: bytes
  phase :: phase

definition hello_ack :: DaemonBinaryResponse where
  "hello_ack = DaemonBinaryResponse.HelloAck ''1.0'' ''can-bridge-daemon'' [''tcp'', ''binary'', ''jsonl'']"

text \<open>The session when the handshake read begins: the writer is running and \<open>HelloAck\<close> was sent to it.\<close>

definition session_start :: tcp_binary where
  "session_start = enqueue hello_ack
     \<lparr>subs = {}, outgoing = [], sender_alive = True, writer_alive = True, wire = [],
      receive_buffer = [], phase = Handshake\<rparr>"

definition finish :: "(session_error, unit) result \<Rightarrow> tcp_binary \<Rightarrow> tcp_binary" where
  "finish r s = drop_sender (s\<lparr>phase := Finished r\<rparr>)"

section \<open>Requests\<close>

definition list_ifaces_reply :: "(string \<Rightarrow> string) \<Rightarrow> DaemonResponse \<Rightarrow> DaemonBinaryResponse" where
  "list_ifaces_reply dbg_str response =
     (case response of
        DaemonResponse.Ifaces items \<Rightarrow> DaemonBinaryResponse.Ifaces items
      | DaemonResponse.Error message \<Rightarrow> DaemonBinaryResponse.Error message
      | other \<Rightarrow>
          DaemonBinaryResponse.Error
            (''unexpected response for list_ifaces: '' @ debug_response dbg_str other))"

definition send_frame_reply :: "(string \<Rightarrow> string) \<Rightarrow> DaemonResponse \<Rightarrow> DaemonBinaryResponse" where
  "send_frame_reply dbg_str response =
     (case response of
        DaemonResponse.SendAck ok error_message \<Rightarrow> DaemonBinaryResponse.SendAck ok error_message
      | DaemonResponse.Error message \<Rightarrow> DaemonBinaryResponse.SendAck False (Some message)
      | other \<Rightarrow>
          DaemonBinaryResponse.Error
            (''unexpected response for send_frame: '' @ debug_response dbg_str other))"

fun dispatch :: "'w ports \<Rightarrow> (string \<Rightarrow> string) \<Rightarrow> ClientBinaryRequest \<Rightarrow> tcp_binary \<times> 'w bridge
    \<Rightarrow> tcp_binary \<times> 'w bridge" where
  "dispatch ports dbg_str (ClientBinaryRequest.Ping i) (s, d) =
     (enqueue (DaemonBinaryResponse.Pong i) s, d)"
| "dispatch ports dbg_str ClientBinaryRequest.ListIfaces (s, d) =
     (let (response, d') = handle ports ClientRequest.ListIfaces d
      in (enqueue (list_ifaces_reply dbg_str response) s, d'))"
| "dispatch ports dbg_str (ClientBinaryRequest.Subscribe ifaces) (s, d) =
     (enqueue (DaemonBinaryResponse.Subscribed ifaces)
        (s\<lparr>subs := update_subscription_set (subs s) ifaces\<rparr>), d)"
| "dispatch ports dbg_str ClientBinaryRequest.Unsubscribe (s, d) =
     (enqueue DaemonBinaryResponse.Unsubscribed (s\<lparr>subs := clear_subscription_set (subs s)\<rparr>), d)"
| "dispatch ports dbg_str (ClientBinaryRequest.SendFrame iface i is_fd brs esi data) (s, d) =
     (let data_hex = bytes_to_hex_lower data;
          (response, d') = handle ports (ClientRequest.SendFrame iface i is_fd brs esi data_hex) d
      in (enqueue (send_frame_reply dbg_str response) s, d'))"
| "dispatch ports dbg_str (ClientBinaryRequest.ClientHello client protocol) (s, d) =
     (enqueue (DaemonBinaryResponse.Error ''client_hello already completed'') s, d)"

section \<open>Reader\<close>

text \<open>
  What the reader's current operation gives: a read (no bytes: end of file), its failure, the
  handshake timeout; \<open>Proceed\<close> is the step that needs nothing from outside.
\<close>

datatype reader_input = Read bytes | ReadFailed | HelloTimeout | Proceed

definition handshake_step :: "(string \<Rightarrow> string) \<Rightarrow> reader_input \<Rightarrow> tcp_binary \<Rightarrow> tcp_binary" where
  "handshake_step dbg_str input s =
     (case input of
        Proceed \<Rightarrow> s
      | HelloTimeout \<Rightarrow> finish (Inl ClientHelloTimeout) s
      | ReadFailed \<Rightarrow> finish (Inl ReadError) s
      | Read chunk \<Rightarrow>
          if chunk = [] then finish (Inl ClosedDuringHandshake) s
          else
            let s = s\<lparr>receive_buffer := receive_buffer s @ chunk\<rparr> in
            case decode_client_from (receive_buffer s) of
              Inl e \<Rightarrow> finish (Inl (DecodeError e)) s
            | Inr None \<Rightarrow> s
            | Inr (Some (request, consumed)) \<Rightarrow>
                let s = s\<lparr>receive_buffer := drop consumed (receive_buffer s)\<rparr> in
                (case request of
                   ClientBinaryRequest.ClientHello client protocol \<Rightarrow> s\<lparr>phase := Decoding\<rparr>
                 | other \<Rightarrow>
                     finish (Inr ())
                       (enqueue (DaemonBinaryResponse.Error
                          (''expected client_hello, got '' @ debug_binary_request dbg_str other)) s)))"

definition decode_step :: "'w ports \<Rightarrow> (string \<Rightarrow> string) \<Rightarrow> tcp_binary \<times> 'w bridge \<Rightarrow> tcp_binary \<times> 'w bridge" where
  "decode_step ports dbg_str sd =
     (let (s, d) = sd in
      case decode_client_from (receive_buffer s) of
        Inl e \<Rightarrow> (finish (Inl (DecodeError e)) s, d)
      | Inr None \<Rightarrow> (s\<lparr>phase := Reading\<rparr>, d)
      | Inr (Some (request, consumed)) \<Rightarrow>
          dispatch ports dbg_str request (s\<lparr>receive_buffer := drop consumed (receive_buffer s)\<rparr>, d))"

definition read_step :: "reader_input \<Rightarrow> tcp_binary \<Rightarrow> tcp_binary" where
  "read_step input s =
     (case input of
        ReadFailed \<Rightarrow> finish (Inl ReadError) s
      | Read chunk \<Rightarrow>
          if chunk = [] then finish (Inr ()) s
          else s\<lparr>receive_buffer := receive_buffer s @ chunk, phase := Decoding\<rparr>
      | HelloTimeout \<Rightarrow> s
      | Proceed \<Rightarrow> s)"

definition reader_step :: "'w ports \<Rightarrow> (string \<Rightarrow> string) \<Rightarrow> reader_input \<Rightarrow> tcp_binary \<times> 'w bridge
    \<Rightarrow> tcp_binary \<times> 'w bridge" where
  "reader_step ports dbg_str input sd =
     (let (s, d) = sd in
      case phase s of
        Handshake \<Rightarrow> (handshake_step dbg_str input s, d)
      | Decoding \<Rightarrow> if input = Proceed then decode_step ports dbg_str (s, d) else (s, d)
      | Reading \<Rightarrow> (read_step input s, d)
      | Finished r \<Rightarrow> (s, d))"

section \<open>Writer\<close>

definition write_response :: "io \<Rightarrow> DaemonBinaryResponse \<Rightarrow> tcp_binary \<Rightarrow> tcp_binary" where
  "write_response io response s =
     (case encode_daemon response of
        Inl e \<Rightarrow> stop_writer s
      | Inr bytes \<Rightarrow> write_out io bytes s)"

definition writer_step :: "writer_input \<Rightarrow> tcp_binary \<Rightarrow> tcp_binary" where
  "writer_step input s =
     (if \<not> writer_alive s then s
      else case input of
        Recv io \<Rightarrow>
          (case outgoing s of
             response # rest \<Rightarrow> write_response io response (s\<lparr>outgoing := rest\<rparr>)
           | [] \<Rightarrow> if sender_alive s then s else stop_writer s)
      | BusEvent frame_event io \<Rightarrow>
          if should_send_frame (subs s) frame_event
          then write_response io (frame_event_to_daemon_binary frame_event) s
          else s
      | BusLagged dropped \<Rightarrow> s
      | BusClosed \<Rightarrow> stop_writer s)"

section \<open>Runs\<close>

text \<open>
  The states a session can reach, with the bytes its reader has read: reads arrive in chunks of any
  size, the writer's inputs in any order, and other tasks may change the bridge at any point.
\<close>

fun bytes_read :: "phase \<Rightarrow> reader_input \<Rightarrow> bytes" where
  "bytes_read Handshake (Read chunk) = chunk"
| "bytes_read Reading (Read chunk) = chunk"
| "bytes_read _ _ = []"

inductive reach :: "'w ports \<Rightarrow> (string \<Rightarrow> string) \<Rightarrow> bytes \<Rightarrow> tcp_binary \<Rightarrow> 'w bridge \<Rightarrow> bool"
  for ports dbg_str where
  start: "reach ports dbg_str [] session_start d"
| reader: "reach ports dbg_str rb s d \<Longrightarrow> reader_step ports dbg_str input (s, d) = (s', d')
    \<Longrightarrow> reach ports dbg_str (rb @ bytes_read (phase s) input) s' d'"
| writer: "reach ports dbg_str rb s d \<Longrightarrow> reach ports dbg_str rb (writer_step input s) d"
| others: "reach ports dbg_str rb s d \<Longrightarrow> reach ports dbg_str rb s d'"

section \<open>Dispatch and writer meet their contracts\<close>

lemma update_subscription_set_eq [simp]: "update_subscription_set g ifaces = set ifaces"
proof -
  have "foldl (\<lambda>set iface. insert iface set) g ifaces = g \<union> set ifaces" for g
    by (induction ifaces arbitrary: g) auto
  then show ?thesis by (simp add: update_subscription_set_def)
qed

lemma clear_subscription_set_eq [simp]: "clear_subscription_set g = {}"
  by (simp add: clear_subscription_set_def)

lemma bytes_to_hex_lower_eq [simp]: "bytes_to_hex_lower bs = hex_lower bs"
  by (simp add: bytes_to_hex_lower_def hex_lower_def)

lemma dispatch_replies:
  "\<exists>r d'. reply_to ports q r \<and> dispatch ports dbg_str q (s, d) =
     (enqueue r (s\<lparr>subs := apply_op update_subscription_set clear_subscription_set (subscription_op q) (subs s)\<rparr>), d')"
proof (cases q)
  case ListIfaces
  show ?thesis
    by (rule bridge.serve_list_cases [of ports d])
      (use ListIfaces in \<open>auto simp: apply_op_def list_ifaces_reply_def intro!: exI [of _ d]\<close>)
next
  case (SendFrame iface i is_fd brs esi data)
  show ?thesis
    by (rule bridge.serve_send_cases [of ports iface i is_fd brs esi "hex_lower data" d])
      (use SendFrame in \<open>auto simp: apply_op_def send_frame_reply_def simp del: handle.simps intro!: exI [of _ d]\<close>)
qed (auto simp: apply_op_def)

lemma writer_step_spec:
  "writer_step input s =
     writer_spec False (\<lambda>r. Some (daemon_packet r)) should_send_frame frame_event_to_daemon_binary input s"
  by (simp add: writer_step_def writer_spec_def write_response_def emit_def encode_daemon_total
      split: writer_input.split list.split)

interpretation tcp: streaming_session writer_step False "\<lambda>r. Some (daemon_packet r)" should_send_frame
  frame_event_to_daemon_binary update_subscription_set clear_subscription_set subscribes "{}"
  "dispatch ports dbg_str" "reply_to ports" subscription_op
  for ports :: "'w ports" and dbg_str
  by unfold_locales (rule dispatch_replies | simp add: writer_step_spec should_send_frame_def subscribes_def)+

section \<open>What a reader step does to output and bridge\<close>

lemma dispatch_effect:
  assumes "dispatch ports dbg_str q (s, d) = (s', d')"
  shows "only_sends binary_reply s s' \<and> serviced ports d d'"
proof
  obtain r where "reply_to ports q r"
    "s' = enqueue r (s\<lparr>subs := apply_op update_subscription_set clear_subscription_set (subscription_op q) (subs s)\<rparr>)"
    using dispatch_replies [of ports q dbg_str s d] assms by auto
  then show "only_sends binary_reply s s'"
    by (auto intro!: only_sends_enqueue only_sends_cong reply_to_binary_reply)
  show "serviced ports d d'"
    using assms by (cases q) (auto simp: Let_def case_prod_beta serviced_def simp del: handle.simps)
qed

lemma handshake_effect: "only_sends binary_reply s (handshake_step dbg_str input s)"
  by (auto simp: handshake_step_def finish_def sends_simps Let_def binary_reply_def
      split: reader_input.split sum.split option.split ClientBinaryRequest.split)

lemma reader_effect:
  assumes "reader_step ports dbg_str input (s, d) = (s', d')"
  shows "only_sends binary_reply s s' \<and> serviced ports d d'"
proof (cases "phase s = Decoding \<and> input = Proceed")
  case True
  have "only_sends binary_reply s s' \<and> serviced ports d d'"
    if "dispatch ports dbg_str q (s\<lparr>receive_buffer := b\<rparr>, d) = (s', d')" for q b
    using dispatch_effect [OF that] by (simp add: only_sends_def)
  with True assms show ?thesis
    by (auto simp: reader_step_def decode_step_def finish_def sends_simps
        split: sum.splits option.splits)
next
  case False
  with assms handshake_effect [of s dbg_str input] show ?thesis
    by (auto simp: reader_step_def read_step_def finish_def sends_simps
        split: phase.splits reader_input.splits if_splits)
qed

section \<open>Invariant of a session\<close>

text \<open>The reader sent \<open>pre\<close>, then answered the requests.\<close>

abbreviation tcp_served :: "'w ports \<Rightarrow> DaemonBinaryResponse list \<Rightarrow> ClientBinaryRequest list \<Rightarrow> tcp_binary \<Rightarrow> bool" where
  "tcp_served ports \<equiv> served (\<lambda>r. Some (daemon_packet r)) frame_event_to_daemon_binary (reply_to ports)
     subscription_op subscribes (apply_op update_subscription_set clear_subscription_set) {}"

abbreviation tcp_answered :: "'w ports \<Rightarrow> DaemonBinaryResponse list \<Rightarrow> ClientBinaryRequest list \<Rightarrow> tcp_binary \<Rightarrow> bool" where
  "tcp_answered ports \<equiv> answered (\<lambda>r. Some (daemon_packet r)) frame_event_to_daemon_binary (reply_to ports)
     subscription_op subscribes should_send_frame"

text \<open>
  How far a session got: waiting for the hello, serving requests after it, or refusing the first
  request because it is not a hello.
\<close>

definition before_hello :: "'w ports \<Rightarrow> bytes \<Rightarrow> tcp_binary \<Rightarrow> bool" where
  "before_hello ports rb s \<longleftrightarrow> consumed_as rb (receive_buffer s) [] \<and> tcp_served ports [hello_ack] [] s"

definition after_hello :: "'w ports \<Rightarrow> bytes \<Rightarrow> tcp_binary \<Rightarrow> bool" where
  "after_hello ports rb s \<longleftrightarrow> (\<exists>client protocol ms.
     consumed_as rb (receive_buffer s) (ClientBinaryRequest.ClientHello client protocol # ms)
     \<and> tcp_served ports [hello_ack] ms s)"

definition refused_hello :: "'w ports \<Rightarrow> (string \<Rightarrow> string) \<Rightarrow> bytes \<Rightarrow> tcp_binary \<Rightarrow> bool" where
  "refused_hello ports dbg_str rb s \<longleftrightarrow> (\<exists>q. (\<forall>client protocol. q \<noteq> ClientBinaryRequest.ClientHello client protocol)
     \<and> consumed_as rb (receive_buffer s) [q]
     \<and> tcp_served ports [hello_ack, DaemonBinaryResponse.Error
          (''expected client_hello, got '' @ debug_binary_request dbg_str q)] [] s)"

text \<open>A decoding error is reported exactly when the bytes left in the buffer cannot be decoded.\<close>

definition result_ok :: "(session_error, unit) result \<Rightarrow> bytes \<Rightarrow> bool" where
  "result_ok r buf \<longleftrightarrow> decode_client_from buf = (case r of Inl (DecodeError e) \<Rightarrow> Inl e | _ \<Rightarrow> Inr None)"

definition session_inv :: "'w ports \<Rightarrow> (string \<Rightarrow> string) \<Rightarrow> bytes \<Rightarrow> tcp_binary \<Rightarrow> bool" where
  "session_inv ports dbg_str rb s \<longleftrightarrow>
     (case phase s of
        Handshake \<Rightarrow> before_hello ports rb s \<and> decode_client_from (receive_buffer s) = Inr None
      | Decoding \<Rightarrow> after_hello ports rb s
      | Reading \<Rightarrow> after_hello ports rb s \<and> decode_client_from (receive_buffer s) = Inr None
      | Finished r \<Rightarrow> \<not> sender_alive s \<and>
          (after_hello ports rb s \<and> result_ok r (receive_buffer s) \<and> r \<notin> {Inl ClientHelloTimeout, Inl ClosedDuringHandshake}
           \<or> before_hello ports rb s \<and> result_ok r (receive_buffer s) \<and> r \<noteq> Inr ()
           \<or> refused_hello ports dbg_str rb s \<and> r = Inr ()))"

lemmas progress_defs = before_hello_def after_hello_def refused_hello_def

lemma served_fields [simp]:
  "tcp_served ports pre ms (s\<lparr>receive_buffer := b\<rparr>) = tcp_served ports pre ms s"
  "tcp_served ports pre ms (s\<lparr>phase := ph\<rparr>) = tcp_served ports pre ms s"
  "tcp_served ports pre ms (finish r s) = tcp_served ports pre ms s"
  by (rule served_cong; simp add: finish_def drop_sender_def)+

lemma finish_fields [simp]:
  "phase (finish r s) = Finished r" "receive_buffer (finish r s) = receive_buffer s"
  "sender_alive (finish r s) = False"
  by (simp_all add: finish_def drop_sender_def)

lemma enqueue_fields [simp]: "phase (enqueue r s) = phase s" "receive_buffer (enqueue r s) = receive_buffer s"
  by (simp_all add: enqueue_def)

lemma dispatch_fields:
  assumes "dispatch ports dbg_str q (s, d) = (s', d')"
  shows "phase s' = phase s" and "receive_buffer s' = receive_buffer s"
  using dispatch_replies [of ports q dbg_str s d] assms by auto

lemma writer_step_fields [simp]:
  "phase (writer_step input s) = phase s" "receive_buffer (writer_step input s) = receive_buffer s"
  "sender_alive (writer_step input s) = sender_alive s"
  by (auto simp: writer_step_def write_response_def session_op_defs
      split: writer_input.split list.split sum.split io.split)

lemma progress_fields [simp]:
  "before_hello ports rb (s\<lparr>phase := ph\<rparr>) = before_hello ports rb s"
  "after_hello ports rb (s\<lparr>phase := ph\<rparr>) = after_hello ports rb s"
  "before_hello ports rb (finish r s) = before_hello ports rb s"
  "after_hello ports rb (finish r s) = after_hello ports rb s"
  "refused_hello ports dbg_str rb (finish r s) = refused_hello ports dbg_str rb s"
  by (simp_all add: progress_defs)

lemma progress_writer:
  "before_hello ports rb s \<Longrightarrow> before_hello ports rb (writer_step input s)"
  "after_hello ports rb s \<Longrightarrow> after_hello ports rb (writer_step input s)"
  "refused_hello ports dbg_str rb s \<Longrightarrow> refused_hello ports dbg_str rb (writer_step input s)"
  unfolding progress_defs writer_step_fields by (blast intro: tcp.served_wstep)+

lemma progress_read:
  "before_hello ports rb s \<Longrightarrow> before_hello ports (rb @ chunk) (s\<lparr>receive_buffer := receive_buffer s @ chunk\<rparr>)"
  "after_hello ports rb s \<Longrightarrow> after_hello ports (rb @ chunk) (s\<lparr>receive_buffer := receive_buffer s @ chunk\<rparr>)"
  by (auto simp: progress_defs intro: consumed_as_read)

text \<open>The first request: a hello lets the session proceed, anything else is refused.\<close>

lemma progress_hello:
  assumes "before_hello ports rb s"
    and "decode_client_from (receive_buffer s) = Inr (Some (ClientBinaryRequest.ClientHello client protocol, n))"
  shows "after_hello ports rb (s\<lparr>receive_buffer := drop n (receive_buffer s)\<rparr>)"
  using assms by (fastforce simp: progress_defs dest: consumed_as_decode)

lemma progress_refuse:
  assumes "before_hello ports rb s" and "decode_client_from (receive_buffer s) = Inr (Some (q, n))"
    and "\<forall>client protocol. q \<noteq> ClientBinaryRequest.ClientHello client protocol"
  shows "refused_hello ports dbg_str rb (enqueue (DaemonBinaryResponse.Error
      (''expected client_hello, got '' @ debug_binary_request dbg_str q))
      (s\<lparr>receive_buffer := drop n (receive_buffer s)\<rparr>))"
proof -
  have "consumed_as rb (drop n (receive_buffer s)) [q]"
    using consumed_as_decode [OF _ assms(2)] assms(1) by (fastforce simp: before_hello_def)
  moreover have "tcp_served ports ([hello_ack] @ [r]) []
      (enqueue r (s\<lparr>receive_buffer := drop n (receive_buffer s)\<rparr>))" for r
    using assms(1) by (intro served_pre) (simp add: before_hello_def)
  ultimately show ?thesis using assms(3) by (auto simp: refused_hello_def)
qed

text \<open>Every further request: dispatched and answered.\<close>

lemma progress_dispatch:
  assumes "after_hello ports rb s" and "decode_client_from (receive_buffer s) = Inr (Some (q, n))"
    and "dispatch ports dbg_str q (s\<lparr>receive_buffer := drop n (receive_buffer s)\<rparr>, d) = (s', d')"
  shows "after_hello ports rb s'"
proof -
  let ?s = "s\<lparr>receive_buffer := drop n (receive_buffer s)\<rparr>"
  obtain client protocol ms
    where c: "consumed_as rb (receive_buffer s) (ClientBinaryRequest.ClientHello client protocol # ms)"
      and v: "tcp_served ports [hello_ack] ms ?s"
    using assms(1) by (auto simp: after_hello_def)
  from consumed_as_decode [OF c assms(2)] tcp.served_dispatch [OF v assms(3)] dispatch_fields [OF assms(3)]
  show ?thesis by (auto simp: after_hello_def)
qed

lemma session_inv_start: "session_inv ports dbg_str [] session_start"
proof -
  have "tcp_served ports ([] @ [hello_ack]) [] session_start"
    unfolding session_start_def by (intro served_pre served_start) simp_all
  then show ?thesis
    by (simp add: session_inv_def before_hello_def session_start_def consumed_as_start enqueue_def)
qed

lemma session_inv_writer: "session_inv ports dbg_str rb s \<Longrightarrow> session_inv ports dbg_str rb (writer_step input s)"
  by (auto simp: session_inv_def intro: progress_writer split: phase.splits)

lemma session_inv_handshake:
  assumes "session_inv ports dbg_str rb s" and "phase s = Handshake"
  shows "session_inv ports dbg_str (rb @ bytes_read Handshake input) (handshake_step dbg_str input s)"
proof (cases input)
  case (Read chunk)
  let ?s = "s\<lparr>receive_buffer := receive_buffer s @ chunk\<rparr>"
  have b: "before_hello ports (rb @ chunk) ?s"
    using assms by (intro progress_read) (simp add: session_inv_def)
  show ?thesis
  proof (cases "chunk = []")
    case True
    with Read assms show ?thesis by (simp add: handshake_step_def session_inv_def result_ok_def)
  next
    case False
    show ?thesis
    proof (cases "receive_buffer ?s" rule: requests.stream_cases)
      case (Message q n)
      show ?thesis
      proof (cases "\<exists>client protocol. q = ClientBinaryRequest.ClientHello client protocol")
        case True
        with Read False Message progress_hello [OF b] show ?thesis
          by (auto simp: handshake_step_def session_inv_def)
      next
        case other: False
        with Read False Message have "handshake_step dbg_str input s = finish (Inr ()) (enqueue
            (DaemonBinaryResponse.Error (''expected client_hello, got '' @ debug_binary_request dbg_str q))
            (?s\<lparr>receive_buffer := drop n (receive_buffer ?s)\<rparr>))"
          by (cases q) (auto simp: handshake_step_def)
        with Read other progress_refuse [OF b Message(1)] show ?thesis
          by (simp add: session_inv_def)
      qed
    qed (use Read False b in \<open>simp_all add: handshake_step_def session_inv_def result_ok_def assms(2)\<close>)
  qed
qed (use assms in \<open>simp_all add: handshake_step_def session_inv_def result_ok_def\<close>)

lemma session_inv_decode:
  assumes "session_inv ports dbg_str rb s" and "phase s = Decoding"
    and "decode_step ports dbg_str (s, d) = (s', d')"
  shows "session_inv ports dbg_str rb s'"
proof (cases "receive_buffer s" rule: requests.stream_cases)
  case (Message q n)
  with assms(3) have "dispatch ports dbg_str q (s\<lparr>receive_buffer := drop n (receive_buffer s)\<rparr>, d) = (s', d')"
    by (simp add: decode_step_def)
  from progress_dispatch [OF _ Message(1) this] dispatch_fields [OF this] assms(1,2) show ?thesis
    by (simp add: session_inv_def)
qed (use assms in \<open>auto simp: decode_step_def session_inv_def result_ok_def\<close>)

lemma session_inv_read:
  assumes "session_inv ports dbg_str rb s" and "phase s = Reading"
  shows "session_inv ports dbg_str (rb @ bytes_read Reading input) (read_step input s)"
proof (cases input)
  case (Read chunk)
  with assms progress_read(2) [of ports rb s chunk] progress_fields(2) show ?thesis
    by (auto simp: read_step_def session_inv_def result_ok_def simp flip: progress_fields(2))
qed (use assms in \<open>simp_all add: read_step_def session_inv_def result_ok_def\<close>)

lemma reach_inv: "reach ports dbg_str rb s d \<Longrightarrow> session_inv ports dbg_str rb s"
proof (induction rule: reach.induct)
  case (reader rb s d input s' d')
  show ?case
  proof (cases "phase s")
    case Handshake
    with reader session_inv_handshake [OF reader.IH Handshake] show ?thesis
      by (auto simp: reader_step_def)
  next
    case Decoding
    with reader session_inv_decode [OF reader.IH Decoding] show ?thesis
      by (auto simp: reader_step_def split: if_splits)
  next
    case Reading
    with reader session_inv_read [OF reader.IH Reading] show ?thesis
      by (auto simp: reader_step_def)
  qed (use reader in \<open>auto simp: reader_step_def\<close>)
qed (auto intro: session_inv_start session_inv_writer)

section \<open>Properties\<close>

lemma reach_reading:
  assumes "reach ports dbg_str rb s d" and "phase s = Reading"
  shows "\<exists>client protocol ms.
    requests_in rb = (None, receive_buffer s, ClientBinaryRequest.ClientHello client protocol # ms)
    \<and> tcp_answered ports [hello_ack] ms s"
proof -
  obtain client protocol ms
    where c: "consumed_as rb (receive_buffer s) (ClientBinaryRequest.ClientHello client protocol # ms)"
      and v: "tcp_served ports [hello_ack] ms s"
      and w: "decode_client_from (receive_buffer s) = Inr None"
    using reach_inv [OF assms(1)] assms(2) by (auto simp: session_inv_def after_hello_def)
  from consumed_as_wait [OF c w] tcp.served_answered [OF v] show ?thesis by blast
qed

text \<open>C1: In every reachable state of a binary TCP session that waits for more bytes, the bytes read so far
  are a \<open>ClientHello\<close> and then exactly the requests handled, with the incomplete rest buffered.
  \<open>HelloAck\<close> and one fitting reply per request, in request order, have been written or are still
  queued (none lost, none invented, as long as the writer runs); what was written is the encoding of
  these replies interleaved with forwarded frames, each of an interface some earlier \<open>Subscribe\<close>
  named; and which frames are forwarded now is decided by the last subscription request alone.\<close>

theorem tcp_binary_answers_in_order:
  assumes "reach ports dbg_str rb s d" and "phase s = Reading"
  shows "\<exists>client protocol ms.
    requests_in rb = (None, receive_buffer s, ClientBinaryRequest.ClientHello client protocol # ms)
    \<and> tcp_answered ports [hello_ack] ms s"
  using assms by (rule reach_reading)

text \<open>Until the \<open>ClientHello\<close> is complete the session has answered nothing: what it wrote is a prefix
  of the encoded \<open>HelloAck\<close>, it is subscribed to no interface, and no complete request was
  received.\<close>

lemma tcp_binary_silent_before_hello:
  assumes "reach ports dbg_str rb s d" and "phase s = Handshake"
  shows "requests_in rb = (None, rb, []) \<and> subs s = {}
    \<and> (\<exists>rest. wire s @ rest = daemon_packet hello_ack)"
proof -
  have b: "consumed_as rb (receive_buffer s) []" and v: "tcp_served ports [hello_ack] [] s"
    and w: "decode_client_from (receive_buffer s) = Inr None"
    using reach_inv [OF assms(1)] assms(2) by (auto simp: session_inv_def before_hello_def)
  from consumed_as_wait [OF b w] b [unfolded consumed_as_Nil] served_one [OF v refl] show ?thesis by simp
qed

lemma result_cases:
  fixes r :: "(session_error, unit) result"
  obtains "r = Inr ()" | "r = Inl ClientHelloTimeout" | "r = Inl ClosedDuringHandshake" | "r = Inl ReadError"
    | e where "r = Inl (DecodeError e)"
proof (cases r)
  case (Inl e)
  then show ?thesis using that by (cases e) simp_all
qed (use that in simp)

text \<open>C19: How a binary TCP session ends. The sending end of the channel is gone, and one of three things
  happened. The client said hello and its requests were answered; then the result is \<open>Ok\<close> or a
  read error with nothing complete left over, or the decoding error of the bytes left over, and never an
  error of the handshake. Or no complete request came, and the session failed with nothing said but
  \<open>HelloAck\<close>. Or the first request was not a \<open>ClientHello\<close>: it is not served, and the one answer is an
  error. A decoding error is thus not answered and not recovered from: it ends the session.\<close>

theorem tcp_binary_outcomes:
  assumes "reach ports dbg_str rb s d" and "phase s = Finished r"
  shows "\<not> sender_alive s \<and>
    ((\<exists>client protocol ms.
        requests_in rb = (case r of Inl (DecodeError e) \<Rightarrow> Some e | _ \<Rightarrow> None, receive_buffer s,
                          ClientBinaryRequest.ClientHello client protocol # ms)
        \<and> r \<in> {Inr (), Inl ReadError} \<union> range (\<lambda>e. Inl (DecodeError e))
        \<and> tcp_answered ports [hello_ack] ms s)
     \<or> (requests_in rb = (case r of Inl (DecodeError e) \<Rightarrow> Some e | _ \<Rightarrow> None, rb, []) \<and> r \<noteq> Inr ()
        \<and> (\<exists>rest. wire s @ rest = daemon_packet hello_ack))
     \<or> (\<exists>q rest. rb = rest @ receive_buffer s \<and> requests_in rest = (None, [], [q]) \<and> r = Inr ()
        \<and> (\<forall>client protocol. q \<noteq> ClientBinaryRequest.ClientHello client protocol)
        \<and> tcp_answered ports
            [hello_ack, DaemonBinaryResponse.Error
               (''expected client_hello, got '' @ debug_binary_request dbg_str q)] [] s))"
proof -
  have inv: "session_inv ports dbg_str rb s" by (rule reach_inv [OF assms(1)])
  then have dead: "\<not> sender_alive s" using assms(2) by (simp add: session_inv_def)
  have left: "requests_in rb = (case r of Inl (DecodeError e) \<Rightarrow> Some e | _ \<Rightarrow> None, receive_buffer s, ms)"
    if "consumed_as rb (receive_buffer s) ms" and "result_ok r (receive_buffer s)" for ms
    using that consumed_as_requests_in [OF that(1)]
    by (auto simp: result_ok_def requests_in.simps [of "receive_buffer s"] split: sum.splits session_error.splits)
  consider (served) "after_hello ports rb s" "result_ok r (receive_buffer s)"
      "r \<notin> {Inl ClientHelloTimeout, Inl ClosedDuringHandshake}"
    | (waiting) "before_hello ports rb s" "result_ok r (receive_buffer s)" "r \<noteq> Inr ()"
    | (refused) "refused_hello ports dbg_str rb s" "r = Inr ()"
    using inv assms(2) by (auto simp: session_inv_def)
  then show ?thesis
  proof cases
    case served
    have "r \<in> {Inr (), Inl ReadError} \<union> range (\<lambda>e. Inl (DecodeError e))"
      using served(3) by (cases rule: result_cases [of r]) auto
    with served(1,2) left dead show ?thesis
      by (auto simp: after_hello_def dest!: tcp.served_answered)
  next
    case waiting
    then have "rb = receive_buffer s" by (simp add: before_hello_def consumed_as_Nil)
    with waiting left [of "[]"] dead show ?thesis
      by (auto simp: before_hello_def dest!: served_one(1))
  next
    case refused
    with dead show ?thesis
      by (auto simp: refused_hello_def consumed_as_def dest!: tcp.served_answered)
  qed
qed

text \<open>Every request taken from the buffer is at least a header long.\<close>

lemma decoding_consumes:
  assumes "phase s = Decoding" and "reader_step ports dbg_str Proceed (s, d) = (s', d')"
  shows "phase s' \<noteq> Decoding \<or> length (receive_buffer s') + HEADER_LEN \<le> length (receive_buffer s)"
proof (cases "receive_buffer s" rule: requests.stream_cases)
  case (Message q n)
  with assms have "dispatch ports dbg_str q (s\<lparr>receive_buffer := drop n (receive_buffer s)\<rparr>, d) = (s', d')"
    by (simp add: reader_step_def decode_step_def)
  with dispatch_fields(2) [OF this] decode_client_from_bounds [OF Message(1)]
  have "length (receive_buffer s') = length (receive_buffer s) - n" "HEADER_LEN \<le> n" "n \<le> length (receive_buffer s)"
    by simp_all
  then show ?thesis by linarith
qed (use assms in \<open>auto simp: reader_step_def decode_step_def\<close>)

text \<open>Decoding what is buffered, one step per request and one to notice that nothing is left.\<close>

lemma decoding_steps:
  assumes "phase s = Decoding" and "requests_in (receive_buffer s) = (e, rest, ms)"
  shows "\<exists>s' d' resps. (reader_step ports dbg_str Proceed ^^ Suc (length ms)) (s, d) = (s', d')
    \<and> list_all2 (reply_to ports) ms resps \<and> receive_buffer s' = rest
    \<and> phase s' = (case e of None \<Rightarrow> Reading | Some err \<Rightarrow> Finished (Inl (DecodeError err)))
    \<and> writer_alive s' = writer_alive s \<and> wire s' = wire s
    \<and> outgoing s' = outgoing s @ (if writer_alive s then resps else [])"
  using assms
proof (induction ms arbitrary: s d)
  case Nil
  show ?case
  proof (cases "receive_buffer s" rule: requests.stream_cases)
    case (Message q n)
    with Nil show ?thesis by (auto simp: requests_in.simps [of "receive_buffer s"] split: prod.splits)
  qed (use Nil in \<open>auto simp: requests_in.simps [of "receive_buffer s"] reader_step_def decode_step_def finish_def drop_sender_def\<close>)
next
  case (Cons q ms)
  then obtain n where q: "decode_client_from (receive_buffer s) = Inr (Some (q, n))"
    and r: "requests_in (drop n (receive_buffer s)) = (e, rest, ms)"
    by (auto simp: requests_in.simps [of "receive_buffer s"] split: sum.splits option.splits prod.splits)
  let ?s = "s\<lparr>receive_buffer := drop n (receive_buffer s)\<rparr>"
  obtain x d1 where x: "reply_to ports q x" and s1: "dispatch ports dbg_str q (?s, d) =
     (enqueue x (?s\<lparr>subs := apply_op update_subscription_set clear_subscription_set (subscription_op q) (subs ?s)\<rparr>), d1)"
    (is "_ = (?s1, _)")
    using dispatch_replies by blast
  have step: "reader_step ports dbg_str Proceed (s, d) = (?s1, d1)"
    using Cons.prems(1) q s1 by (simp add: reader_step_def decode_step_def)
  have "phase ?s1 = Decoding" and "requests_in (receive_buffer ?s1) = (e, rest, ms)"
    using Cons.prems(1) r by simp_all
  from Cons.IH [OF this, of d1] obtain s' d' resps
    where "(reader_step ports dbg_str Proceed ^^ Suc (length ms)) (?s1, d1) = (s', d')"
      "list_all2 (reply_to ports) ms resps" "receive_buffer s' = rest"
      "phase s' = (case e of None \<Rightarrow> Reading | Some err \<Rightarrow> Finished (Inl (DecodeError err)))"
      "writer_alive s' = writer_alive ?s1" "wire s' = wire ?s1"
      "outgoing s' = outgoing ?s1 @ (if writer_alive ?s1 then resps else [])" by blast
  with x step show ?case
    by (intro exI [of _ s'] exI [of _ d'] exI [of _ "x # resps"])
      (auto simp: enqueue_def funpow_swap1 simp del: funpow.simps(2) simp add: funpow_Suc_right)
qed

text \<open>C16: Nothing complete stays unanswered: from any state that is about to decode, finitely many reader
  steps handle every complete request in the buffer and end either waiting for more bytes or with the
  decoding error; if the writer runs and its writes succeed, it then writes what was queued before
  and one fitting reply per request, in order.\<close>

theorem tcp_binary_all_answered:
  assumes "phase s = Decoding" and "writer_alive s" and "requests_in (receive_buffer s) = (e, rest, ms)"
  shows "\<exists>n m s' d' resps. (reader_step ports dbg_str Proceed ^^ n) (s, d) = (s', d')
    \<and> receive_buffer s' = rest
    \<and> phase s' = (case e of None \<Rightarrow> Reading | Some err \<Rightarrow> Finished (Inl (DecodeError err)))
    \<and> list_all2 (reply_to ports) ms resps
    \<and> wire ((writer_step (Recv IoOk) ^^ m) s') = wire s @ concat (map daemon_packet (outgoing s @ resps))"
proof -
  obtain s' d' resps where steps: "(reader_step ports dbg_str Proceed ^^ Suc (length ms)) (s, d) = (s', d')"
    and s': "list_all2 (reply_to ports) ms resps" "receive_buffer s' = rest"
      "phase s' = (case e of None \<Rightarrow> Reading | Some err \<Rightarrow> Finished (Inl (DecodeError err)))"
    and out: "writer_alive s'" "wire s' = wire s" "outgoing s' = outgoing s @ resps"
    using decoding_steps [OF assms(1,3), of ports dbg_str d] assms(2) by auto
  have "wire ((writer_step (Recv IoOk) ^^ length (outgoing s')) s')
      = wire s @ concat (map daemon_packet (outgoing s @ resps))"
    using tcp.recv_all [of s'] out by simp
  with steps s' show ?thesis by blast
qed

section \<open>Witnesses\<close>

definition sample_state :: tcp_binary where
  "sample_state = session_start\<lparr>receive_buffer := client_packet (ClientBinaryRequest.Ping 7), phase := Decoding\<rparr>"

lemma session_start_fields [simp]:
  "phase session_start = Handshake" "receive_buffer session_start = []" "writer_alive session_start"
  "outgoing session_start = [hello_ack]" "wire session_start = []"
  by (simp_all add: session_start_def enqueue_def)

lemma reach_sample: "reach accepting_ports id sample_bytes sample_state empty_bridge"
proof -
  have "reader_step accepting_ports id (Read sample_bytes) (session_start, empty_bridge)
      = (sample_state, empty_bridge)"
    by (simp add: reader_step_def handshake_step_def decode_sample)
      (simp add: sample_state_def sample_hello_def sample_bytes_def)
  from reach.reader [OF reach.start this] show ?thesis by simp
qed

lemma reach_sample_served:
  "reach accepting_ports id sample_bytes
     (sample_state\<lparr>receive_buffer := [], phase := Reading, outgoing := [hello_ack, DaemonBinaryResponse.Pong 7]\<rparr>)
     empty_bridge" (is "reach _ _ _ ?s' _")
proof -
  let ?s = "sample_state\<lparr>receive_buffer := [], outgoing := [hello_ack, DaemonBinaryResponse.Pong 7]\<rparr>"
  have "reader_step accepting_ports id Proceed (sample_state, empty_bridge) = (?s, empty_bridge)"
    by (simp add: reader_step_def decode_step_def sample_state_def decode_sample enqueue_def)
  from reach.reader [OF reach_sample this] have "reach accepting_ports id sample_bytes ?s empty_bridge" by simp
  moreover have "reader_step accepting_ports id Proceed (?s, empty_bridge) = (?s', empty_bridge)"
    by (simp add: reader_step_def decode_step_def sample_state_def)
  ultimately show ?thesis using reach.reader by fastforce
qed

theorem tcp_binary_answers_in_order_witness:
  "\<exists>s. reach accepting_ports id sample_bytes s empty_bridge \<and> phase s = Reading
     \<and> (\<exists>client protocol ms.
          requests_in sample_bytes = (None, receive_buffer s, ClientBinaryRequest.ClientHello client protocol # ms)
          \<and> tcp_answered accepting_ports [hello_ack] ms s)"
  by (rule exI, rule conjI [OF reach_sample_served], rule conjI [OF _ tcp_binary_answers_in_order [OF reach_sample_served]])
    (simp_all add: sample_state_def)

theorem tcp_binary_outcomes_witness:
  "reach accepting_ports id [] (finish (Inl ClosedDuringHandshake) session_start) empty_bridge
   \<and> \<not> sender_alive (finish (Inl ClosedDuringHandshake) session_start)"
proof -
  have "reader_step accepting_ports id (Read []) (session_start, empty_bridge)
      = (finish (Inl ClosedDuringHandshake) session_start, empty_bridge)"
    by (simp add: reader_step_def handshake_step_def)
  from reach.reader [OF reach.start this]
  have r: "reach accepting_ports id [] (finish (Inl ClosedDuringHandshake) session_start) empty_bridge" by simp
  from tcp_binary_outcomes [OF r] r show ?thesis by simp
qed

theorem tcp_binary_all_answered_witness:
  "\<exists>n m s' d'. (reader_step accepting_ports id Proceed ^^ n) (sample_state, empty_bridge) = (s', d')
     \<and> phase s' = Reading
     \<and> wire ((writer_step (Recv IoOk) ^^ m) s') = concat (map daemon_packet [hello_ack, DaemonBinaryResponse.Pong 7])"
proof -
  have "requests_in (client_packet (ClientBinaryRequest.Ping 7)) = (None, [], [ClientBinaryRequest.Ping 7])"
    by (simp add: requests_in.simps [of "client_packet (ClientBinaryRequest.Ping 7)"] decode_sample
        requests_in.simps [of "[]"])
  then have "requests_in (receive_buffer sample_state) = (None, [], [ClientBinaryRequest.Ping 7])"
    by (simp add: sample_state_def)
  from tcp_binary_all_answered [OF _ _ this, of accepting_ports id empty_bridge]
  show ?thesis by (auto simp: sample_state_def list_all2_Cons1)
qed

end
