(* ===== verification/Example_Client.thy ===== *)
theory Example_Client
  imports Tcp_Binary "HOL-Library.Sublist"
begin

text \<open>
  The example client of the binary protocol, \<open>examples/rust/tcp_binary_client.rs\<close>, and what happens
  when it talks to a session of \<open>Tcp_Binary\<close>. Its integers are big-endian (\<open>put_u16\<close> and
  \<open>put_u32\<close> of the \<open>bytes\<close> crate, \<open>from_be_bytes\<close>), the daemon's are little-endian.
\<close>

section \<open>Encoding\<close>

definition MAGIC :: bytes where
  "MAGIC = [0x43, 0x42, 0x44, 0x31]"

definition HEADER_LEN :: nat where
  "HEADER_LEN = 8"

definition HELLO_ACK :: u16 where "HELLO_ACK = 1"

definition IFACES :: u16 where "IFACES = 3"

definition SUBSCRIBED :: u16 where "SUBSCRIBED = 4"

definition FRAME_EVENT :: u16 where "FRAME_EVENT = 7"

definition ERROR :: u16 where "ERROR = 8"

definition CLIENT_HELLO :: u16 where "CLIENT_HELLO = 101"

definition LIST_IFACES :: u16 where "LIST_IFACES = 103"

definition SUBSCRIBE :: u16 where "SUBSCRIBE = 104"

definition put_u16_be :: "bytes \<Rightarrow> u16 \<Rightarrow> bytes" where
  "put_u16_be buf v = buf @ rev (le_bytes 2 v)"

definition put_u32_be :: "bytes \<Rightarrow> u32 \<Rightarrow> bytes" where
  "put_u32_be buf v = buf @ rev (le_bytes 4 v)"

definition from_be_bytes :: "bytes \<Rightarrow> 'a::len word" where
  "from_be_bytes bs = from_le_bytes (rev bs)"

definition pack_str :: "string \<Rightarrow> bytes" where
  "pack_str s = put_u16_be [] (word_of_nat (length (as_bytes s))) @ as_bytes s"

definition encode_frame :: "u16 \<Rightarrow> u16 \<Rightarrow> bytes \<Rightarrow> bytes" where
  "encode_frame msg_type flags payload =
     put_u32_be (put_u16_be (put_u16_be MAGIC msg_type) flags) (word_of_nat (length payload)) @ payload"

section \<open>Reading\<close>

datatype client_error =
    UnexpectedEof
  | WriteFailed
  | NotMagic bytes
  | ServerError bytes
  | ExpectedHelloAck u16
  | ExpectedIfaces u16 nat
  | ExpectedSubscribed u16

text \<open>
  Reading from what has arrived: \<open>None\<close> while the read blocks, an error once the peer has closed and
  too little is left, or the value and the bytes after it. A blocked read starts over when more
  arrives, which gives what resuming it gives.
\<close>

type_synonym 'a blocking = "(client_error, 'a \<times> bytes) result option"

definition bind_blocking :: "'a blocking \<Rightarrow> ('a \<Rightarrow> bytes \<Rightarrow> 'b blocking) \<Rightarrow> 'b blocking" where
  "bind_blocking r f =
     (case r of
        None \<Rightarrow> None
      | Some (Inl e) \<Rightarrow> Some (Inl e)
      | Some (Inr (x, rest)) \<Rightarrow> f x rest)"

definition read_exact :: "bool \<Rightarrow> nat \<Rightarrow> bytes \<Rightarrow> bytes blocking" where
  "read_exact eof n input =
     (if n \<le> length input then Some (Inr (take n input, drop n input))
      else if eof then Some (Inl UnexpectedEof)
      else None)"

definition read_msg :: "bool \<Rightarrow> bytes \<Rightarrow> (u16 \<times> u16 \<times> bytes) blocking" where
  "read_msg eof input =
     bind_blocking (read_exact eof 4 input) (\<lambda>magic input.
       if magic \<noteq> MAGIC then Some (Inl (NotMagic magic))
       else bind_blocking (read_exact eof HEADER_LEN input) (\<lambda>hdr input.
         let msg_type = from_be_bytes [hdr ! 0, hdr ! 1];
             flags = from_be_bytes [hdr ! 2, hdr ! 3];
             len = unat (from_be_bytes [hdr ! 4, hdr ! 5, hdr ! 6, hdr ! 7] :: u32)
         in if len > 0
            then bind_blocking (read_exact eof len input) (\<lambda>payload input.
                   Some (Inr ((msg_type, flags, payload), input)))
            else Some (Inr ((msg_type, flags, []), input))))"

section \<open>The program\<close>

text \<open>Where \<open>main\<close> is: about to say hello, waiting for one of the answers, streaming, or returned.\<close>

datatype client_phase =
  Connected | AwaitHelloAck | AwaitIfaces | AwaitSubscribed | Streaming | Exited client_error

record example_client =
  progress :: client_phase
  incoming :: bytes
  sent :: bytes
  printed :: "string list"

definition client_start :: example_client where
  "client_start = \<lparr>progress = Connected, incoming = [], sent = [], printed = []\<rparr>"

definition client_iface :: string where
  "client_iface = ''can0''"

definition client_hello :: bytes where
  "client_hello = encode_frame CLIENT_HELLO 0 (pack_str ''rust-tcp-binary'' @ pack_str ''0.1.0'')"

definition send_all :: "io \<Rightarrow> bytes \<Rightarrow> client_phase \<Rightarrow> example_client \<Rightarrow> example_client" where
  "send_all io frame next c =
     (case io of
        IoOk \<Rightarrow> c\<lparr>sent := sent c @ frame, progress := next\<rparr>
      | IoFail n \<Rightarrow> c\<lparr>sent := sent c @ take n frame, progress := Exited WriteFailed\<rparr>)"

definition println :: "string \<Rightarrow> example_client \<Rightarrow> example_client" where
  "println line c = c\<lparr>printed := printed c @ [line]\<rparr>"

definition exit_with :: "client_error \<Rightarrow> example_client \<Rightarrow> example_client" where
  "exit_with e c = c\<lparr>progress := Exited e\<rparr>"

definition on_message :: "io \<Rightarrow> u16 \<Rightarrow> bytes \<Rightarrow> example_client \<Rightarrow> example_client" where
  "on_message io mt p c =
     (case progress c of
        AwaitHelloAck \<Rightarrow>
          if mt = ERROR then exit_with (ServerError p) c
          else if mt \<noteq> HELLO_ACK then exit_with (ExpectedHelloAck mt) c
          else send_all io (encode_frame LIST_IFACES 0 []) AwaitIfaces (println ''HelloAck ok'' c)
      | AwaitIfaces \<Rightarrow>
          if mt \<noteq> IFACES then exit_with (ExpectedIfaces mt (length p)) c
          else send_all io (encode_frame SUBSCRIBE 0 (pack_str client_iface)) AwaitSubscribed
                 (println (''Ifaces payload len='' @ show_nat (length p)) c)
      | AwaitSubscribed \<Rightarrow>
          if mt \<noteq> SUBSCRIBED then exit_with (ExpectedSubscribed mt) c
          else (println (''Subscribed '' @ client_iface) c)\<lparr>progress := Streaming\<rparr>
      | Streaming \<Rightarrow>
          if mt = FRAME_EVENT then println (''FrameEvent payload len='' @ show_nat (length p)) c
          else if mt = ERROR then println (''Error payload len='' @ show_nat (length p)) c
          else println (''Other msg_type='' @ show_word mt @ '' payload_len='' @ show_nat (length p)) c
      | _ \<Rightarrow> c)"

text \<open>One step: the hello is written, or the pending \<open>read_msg\<close> is tried.\<close>

definition client_step :: "bool \<Rightarrow> io \<Rightarrow> example_client \<Rightarrow> example_client" where
  "client_step eof io c =
     (case progress c of
        Connected \<Rightarrow> send_all io client_hello AwaitHelloAck c
      | Exited e \<Rightarrow> c
      | _ \<Rightarrow>
          (case read_msg eof (incoming c) of
             None \<Rightarrow> c
           | Some (Inl e) \<Rightarrow> exit_with e c
           | Some (Inr ((mt, flags, p), rest)) \<Rightarrow> on_message io mt p (c\<lparr>incoming := rest\<rparr>)))"

section \<open>Client and session\<close>

text \<open>
  The two programs joined by a connection: the bytes the session has read are the first of those the
  client sent, the bytes the client has received the first of those the session wrote, delivered in
  pieces of any size. Writes and reads may fail and the connection may close at any point.
\<close>

inductive joint :: "'w ports \<Rightarrow> (string \<Rightarrow> string) \<Rightarrow> bytes \<Rightarrow> tcp_binary \<Rightarrow> 'w bridge \<Rightarrow> bytes \<Rightarrow> example_client \<Rightarrow> bool"
  for ports dbg_str where
  start: "joint ports dbg_str [] session_start d [] client_start"
| reader: "joint ports dbg_str rb s d cb c \<Longrightarrow> reader_step ports dbg_str input (s, d) = (s', d')
    \<Longrightarrow> prefix (rb @ bytes_read (phase s) input) (sent c)
    \<Longrightarrow> joint ports dbg_str (rb @ bytes_read (phase s) input) s' d' cb c"
| writer: "joint ports dbg_str rb s d cb c \<Longrightarrow> joint ports dbg_str rb (writer_step input s) d cb c"
| others: "joint ports dbg_str rb s d cb c \<Longrightarrow> joint ports dbg_str rb s d' cb c"
| deliver: "joint ports dbg_str rb s d cb c \<Longrightarrow> prefix (cb @ bs) (wire s)
    \<Longrightarrow> joint ports dbg_str rb s d (cb @ bs) (c\<lparr>incoming := incoming c @ bs\<rparr>)"
| client: "joint ports dbg_str rb s d cb c \<Longrightarrow> joint ports dbg_str rb s d cb (client_step eof io c)"

text \<open>Each side takes the other's length field for a length of hundreds of megabytes and waits.\<close>

lemma client_hello_bytes: "client_hello = Binary_Message.MAGIC @ [0, 0x65] @ [0, 0] @ [0, 0, 0, 24] @ drop 12 client_hello"
  and length_client_hello: "length client_hello = 36"
  by code_simp+

lemma hello_ack_bytes:
  obtains payload where "daemon_packet hello_ack = MAGIC @ [1, 0, 0, 0, 46, 0, 0, 0] @ payload" and "length payload = 46"
proof -
  obtain payload where p: "encode_daemon_payload hello_ack = Inr (MsgType.HelloAck, payload)"
    by (simp add: hello_ack_def encode_daemon_payload_def)
  then have "length payload = 46"
    by (auto simp: hello_ack_def encode_daemon_payload_def put_string_def put_u16_def as_bytes_def Let_def)
  moreover have "le_bytes 2 (1 :: u16) = [1, 0]" "le_bytes 2 (0 :: u16) = [0, 0]" "le_bytes 4 (46 :: u32) = [46, 0, 0, 0]"
    by code_simp+
  ultimately show thesis
    using p by (intro that) (simp_all add: daemon_packet_eq packet_def MAGIC_def Binary_Message.MAGIC_def)
qed

lemma prefix_header_cases:
  assumes "prefix xs (a @ b)"
  obtains "length xs < length a" "prefix xs a" | ys where "xs = a @ ys" "prefix ys b"
proof (cases "prefix xs a \<and> xs \<noteq> a")
  case True
  then have "length xs < length a" by (intro prefix_length_less) (simp add: strict_prefix_def)
  with True show thesis using that(1) by blast
next
  case False
  with assms show thesis using that(2) [of "[]"] that(2) by (auto simp: prefix_append)
qed

lemma decode_client_hello_prefix:
  assumes "prefix xs client_hello"
  shows "decode_client_from xs = Inr None"
proof -
  let ?h = "Binary_Message.MAGIC @ [0, 0x65] @ [0, 0] @ [0, 0, 0, 24]"
  have "prefix xs (?h @ drop 12 client_hello)" using assms client_hello_bytes by simp
  then show ?thesis
  proof (cases rule: prefix_header_cases)
    case 1
    then show ?thesis by (simp add: decode_client_from_def decode_packet_short Binary_Message.HEADER_LEN_def)
  next
    case (2 ys)
    from prefix_length_le [OF 2(2)] have "length ys \<le> 24" by (simp add: length_client_hello)
    with 2(1) decode_packet_frame [of "[0, 0x65]" "[0, 0]" "[0, 0, 0, 24]" ys] show ?thesis
      by (simp add: decode_client_from_def)
  qed
qed

lemma read_hello_ack_prefix:
  assumes "prefix xs (daemon_packet hello_ack)"
  shows "read_msg eof xs = (if eof then Some (Inl UnexpectedEof) else None)"
proof -
  obtain payload where p: "daemon_packet hello_ack = MAGIC @ [1, 0, 0, 0, 46, 0, 0, 0] @ payload" "length payload = 46"
    by (rule hello_ack_bytes)
  show ?thesis
  proof (cases "length xs < 4")
    case True
    then show ?thesis by (simp add: read_msg_def read_exact_def bind_blocking_def)
  next
    case False
    obtain ys where ys: "xs = MAGIC @ ys" "prefix ys ([1, 0, 0, 0, 46, 0, 0, 0] @ payload)"
      by (rule prefix_header_cases [OF assms [unfolded p(1)]]) (use False in \<open>simp add: MAGIC_def\<close>)
    from ys(2) show ?thesis
    proof (cases rule: prefix_header_cases)
      case 1
      with ys(1) show ?thesis by (simp add: read_msg_def read_exact_def bind_blocking_def MAGIC_def HEADER_LEN_def)
    next
      case (2 zs)
      from prefix_length_le [OF 2(2)] p(2) have "length zs \<le> 46" by simp
      with ys(1) 2(1) show ?thesis
        by (simp add: read_msg_def read_exact_def bind_blocking_def MAGIC_def HEADER_LEN_def from_be_bytes_def)
    qed
  qed
qed

text \<open>The reader never touches the output, the writer only extends it.\<close>

lemma reader_keeps_wire: "reader_step ports dbg_str input (s, d) = (s', d') \<Longrightarrow> wire s' = wire s"
  by (drule reader_effect) (simp add: only_sends_def)

lemma writer_extends_wire: "prefix (wire s) (wire (writer_step input s))"
  by (auto simp: writer_step_def write_response_def write_out_def stop_writer_def
      split: writer_input.split list.split sum.split io.split)

text \<open>A session that has read nothing complete has said nothing but \<open>HelloAck\<close>.\<close>

lemma reach_unheard:
  assumes "reach ports dbg_str rb s d" and "decode_client_from rb = Inr None"
  shows "phase s = Handshake \<or> phase s \<in> Finished ` Inl ` {ClientHelloTimeout, ClosedDuringHandshake, ReadError}"
    and "prefix (wire s) (daemon_packet hello_ack)"
proof -
  have r: "requests_in rb = (None, rb, [])" using assms(2) by (simp add: requests_in.simps [of rb])
  have "\<not> after_hello ports rb s"
    using r by (auto simp: after_hello_def dest!: consumed_as_requests_in split: prod.splits)
  moreover have "\<not> refused_hello ports dbg_str rb s"
    using r by (auto simp: refused_hello_def dest!: consumed_as_requests_in split: prod.splits)
  ultimately have b: "before_hello ports rb s" and
    p: "phase s = Handshake \<or> (\<exists>r. phase s = Finished r \<and> result_ok r (receive_buffer s) \<and> r \<noteq> Inr ())"
    using reach_inv [OF assms(1)] by (auto simp: session_inv_def split: phase.splits)
  have "receive_buffer s = rb" using b by (simp add: before_hello_def consumed_as_Nil)
  with assms(2) have "r \<in> Inl ` {ClientHelloTimeout, ClosedDuringHandshake, ReadError}"
    if "result_ok r (receive_buffer s)" "r \<noteq> Inr ()" for r
    using that by (auto simp: result_ok_def image_iff split: sum.splits session_error.splits)
  with p show "phase s = Handshake \<or> phase s \<in> Finished ` Inl ` {ClientHelloTimeout, ClosedDuringHandshake, ReadError}"
    by blast
  show "prefix (wire s) (daemon_packet hello_ack)"
    using b served_one(1) [of _ _ _ _ _ _ _ hello_ack] by (metis before_hello_def prefixI option.sel)
qed

text \<open>
  What stays true of the pair: the client has sent at most its hello, has got nothing it could read,
  and waits or has given up.
\<close>

lemma joint_stuck:
  assumes "joint ports dbg_str rb s d cb c"
  shows "reach ports dbg_str rb s d \<and> prefix rb (sent c) \<and> prefix (sent c) client_hello
    \<and> incoming c = cb \<and> prefix cb (wire s) \<and> printed c = []
    \<and> (progress c = Connected \<and> sent c = [] \<or> progress c = AwaitHelloAck
        \<or> progress c \<in> Exited ` {UnexpectedEof, WriteFailed})"
  using assms
proof (induction rule: joint.induct)
  case (start d)
  then show ?case by (auto simp: client_start_def intro: reach.start)
next
  case (reader rb s d cb c input s' d')
  have "wire s' = wire s" by (rule reader_keeps_wire [OF reader.hyps(2)])
  with reader show ?case by (auto intro: reach.reader)
next
  case (writer rb s d cb c input)
  have "prefix (wire s) (wire (writer_step input s))" by (rule writer_extends_wire)
  with writer show ?case by (auto intro: reach.writer prefix_order.trans)
next
  case (others rb s d cb c d')
  then show ?case by (auto intro: reach.others)
next
  case (client rb s d cb c eof io)
  have "prefix rb client_hello" using client.IH prefix_order.trans by blast
  then have "prefix (wire s) (daemon_packet hello_ack)"
    using client.IH reach_unheard(2) decode_client_hello_prefix by blast
  then have "read_msg eof (incoming c) = (if eof then Some (Inl UnexpectedEof) else None)"
    using client.IH prefix_order.trans by (intro read_hello_ack_prefix) blast
  with client.IH show ?case
    by (cases eof) (auto simp: client_step_def send_all_def exit_with_def take_is_prefix split: io.split)
qed simp

section \<open>Property\<close>

text \<open>C37: The example client and the daemon do not understand each other. However the bytes are delivered and
  whatever fails, the daemon never gets past the handshake (it waits until the timeout, a closed
  connection or a read error ends the session) and says nothing but \<open>HelloAck\<close>, and the client never
  recognises that \<open>HelloAck\<close>: it prints nothing and waits until the connection is closed, or gives up
  because it is.\<close>

theorem example_client_not_understood:
  assumes "joint ports dbg_str rb s d cb c"
  shows "(phase s = Handshake \<or> phase s \<in> Finished ` Inl ` {ClientHelloTimeout, ClosedDuringHandshake, ReadError})
    \<and> prefix (wire s) (daemon_packet hello_ack)
    \<and> progress c \<in> {Connected, AwaitHelloAck} \<union> Exited ` {UnexpectedEof, WriteFailed} \<and> printed c = []"
proof -
  note j = joint_stuck [OF assms]
  then have "prefix rb client_hello" using prefix_order.trans by blast
  note decode_client_hello_prefix [OF this]
  with j reach_unheard [of ports dbg_str rb s d] show ?thesis by blast
qed

lemma joint_sample:
  "\<exists>s c. joint accepting_ports id client_hello s empty_bridge [] c \<and> progress c = AwaitHelloAck"
proof -
  let ?c = "client_step False IoOk client_start"
  have c: "progress ?c = AwaitHelloAck" "sent ?c = client_hello"
    by (simp_all add: client_step_def client_start_def send_all_def)
  have "joint accepting_ports id [] session_start empty_bridge [] ?c" by (intro joint.client joint.start)
  moreover obtain s' d' where r: "reader_step accepting_ports id (Read client_hello) (session_start, empty_bridge) = (s', d')"
    by (rule prod.exhaust)
  ultimately have "joint accepting_ports id client_hello s' d' [] ?c"
    using joint.reader [of accepting_ports id "[]" session_start empty_bridge "[]" ?c "Read client_hello" s' d'] r c by simp
  then show ?thesis using c joint.others by blast
qed

theorem example_client_not_understood_witness:
  "\<exists>s c. joint accepting_ports id client_hello s empty_bridge [] c \<and> progress c = AwaitHelloAck
     \<and> prefix (wire s) (daemon_packet hello_ack) \<and> printed c = []"
proof -
  obtain s c where j: "joint accepting_ports id client_hello s empty_bridge [] c" "progress c = AwaitHelloAck"
    using joint_sample by blast
  from example_client_not_understood [OF j(1)] j show ?thesis by blast
qed

end
