(* ===== verification/Json_Session.thy ===== *)
theory Json_Session
  imports Service Delivery
begin

text \<open>
  What the two JSON transports share. JSON itself is \<open>serde_json\<close>, a library: parsing a request
  and printing a response are the parameter \<open>json\<close>, their errors given by their display text.
  \<open>json_documented\<close> is what its documentation says of the printer: every response can be printed,
  and the text is compact, so it has no line feed.
\<close>

record json =
  from_str :: "string \<Rightarrow> (string, ClientRequest) result"
  to_string :: "DaemonResponse \<Rightarrow> (string, string) result"

definition newline :: u8 where
  "newline = 0x0A"

definition json_documented :: "json \<Rightarrow> bool" where
  "json_documented json \<longleftrightarrow>
     (\<forall>response. \<exists>line. to_string json response = Inr line \<and> newline \<notin> set (as_bytes line))"

text \<open>
  The answer the service gives a request at some bridge state; the requests the transports handle
  themselves are answered by them.
\<close>

fun json_reply :: "'w ports \<Rightarrow> ClientRequest \<Rightarrow> DaemonResponse \<Rightarrow> bool" where
  "json_reply ports (ClientRequest.Subscribe ifaces filters) r \<longleftrightarrow> r = DaemonResponse.Subscribed ifaces"
| "json_reply ports ClientRequest.Unsubscribe r \<longleftrightarrow> r = DaemonResponse.Unsubscribed"
| "json_reply ports (ClientRequest.ClientHello client protocol) r \<longleftrightarrow> (\<exists>message. r = DaemonResponse.Error message)"
| "json_reply ports request r \<longleftrightarrow> (\<exists>d. r = fst (handle ports request d))"

text \<open>No answer carries a frame.\<close>

definition json_answer :: "DaemonResponse \<Rightarrow> bool" where
  "json_answer r \<longleftrightarrow> (case r of DaemonResponse.Frame _ _ _ _ _ _ \<Rightarrow> False | _ \<Rightarrow> True)"

lemma handle_json_answer: "handle ports request d = (r, d') \<Longrightarrow> json_answer r"
  by (cases request) (auto simp: json_answer_def split: sum.splits prod.splits)

definition quiet_ports :: "nat ports" where
  "quiet_ports = \<lparr>list_can_ifaces = (\<lambda>w. (Inr [], w)), can_send = (\<lambda>_ _ _ _ _ _ w. (Inr (), w)),
     system_time = (\<lambda>_. 0)\<rparr>"

definition quiet_bridge :: "nat bridge" where
  "quiet_bridge = \<lparr>world = 0, published = []\<rparr>"

text \<open>The parser and printer on a few texts, for evaluating sessions on concrete input.\<close>

definition sample_json :: json where
  "sample_json =
     \<lparr>from_str = (\<lambda>t. if t = ''hello'' then Inr (ClientRequest.ClientHello ''tool'' ''1'')
        else if t = ''ping'' then Inr (ClientRequest.Ping 7)
        else if t = ''sub'' then Inr (ClientRequest.Subscribe [''can0''] [])
        else Inl ''expected value''),
      to_string = (\<lambda>r. Inr (case r of DaemonResponse.Pong i \<Rightarrow> ''pong'' | _ \<Rightarrow> ''other''))\<rparr>"

lemma sample_json_documented: "json_documented sample_json"
  by (auto simp: json_documented_def sample_json_def newline_def as_bytes_def byte_of_char_def
      split: DaemonResponse.split)

section \<open>Lines on the wire\<close>

text \<open>Cut a byte stream into complete lines and the unfinished rest, as a client of the protocol does.\<close>

fun split_lines :: "bytes \<Rightarrow> bytes list \<times> bytes" where
  "split_lines [] = ([], [])"
| "split_lines (b # bs) =
     (case split_lines bs of (lines, rest) \<Rightarrow>
        if b = newline then ([] # lines, rest)
        else (case lines of [] \<Rightarrow> ([], b # rest) | l # ls \<Rightarrow> ((b # l) # ls, rest)))"

lemma split_lines_rest: "newline \<notin> set bs \<Longrightarrow> split_lines bs = ([], bs)"
  by (induction bs) auto

lemma split_lines_line:
  "newline \<notin> set l \<Longrightarrow> split_lines (l @ newline # bs) = (case split_lines bs of (lines, rest) \<Rightarrow> (l # lines, rest))"
  by (induction l) (auto split: prod.split)

lemma split_lines_concat:
  assumes "\<forall>l\<in>set ls. newline \<notin> set l"
  shows "split_lines (concat (map (\<lambda>l. l @ [newline]) ls)) = (ls, [])"
  using assms by (induction ls) (simp_all add: split_lines_line)

end
