(* ===== verification/Protocol_Json.thy ===== *)
theory Protocol_Json
  imports Json_Session "HOL-Library.Monad_Syntax" "HOL-Library.Sublist"
begin

text \<open>
  The JSON form of the protocol: what the \<open>serde\<close> attributes of \<open>src/domain/protocol.rs\<close> ask for.
  Requests and responses are objects with the variant in snake case under \<open>type\<close> and the fields
  beside it; fields marked \<open>default\<close> may be missing, an absent error message is left out, fields
  the variant does not have are ignored, and a field of it that is there twice is refused. Derived
  readers also take arrays in place of objects; which ones is a matter of \<open>serde\<close>, a library, and the
  parameter \<open>seqs\<close>. So are the texts, of \<open>serde_json\<close>: \<open>serde_documented\<close> relates its printer and parsers
  to the values here.
\<close>

section \<open>Values\<close>

text \<open>
  JSON as it is written: an object has its members in their order, repeated keys included. A number that
  is not an integer is kept as its text.
\<close>

datatype json_value =
    JNull
  | JBool bool
  | JInt int
  | JFloat string
  | JStr string
  | JArr "json_value list"
  | JObj "(string \<times> json_value) list"

text \<open>\<open>Value::get\<close>; a \<open>Value\<close> has no repeated keys.\<close>

fun get_field :: "json_value \<Rightarrow> string \<Rightarrow> json_value option" where
  "get_field (JObj fs) k = map_of fs k"
| "get_field _ k = None"

section \<open>Serializing\<close>

definition tagged :: "string \<Rightarrow> (string \<times> json_value) list \<Rightarrow> json_value" where
  "tagged t fs = JObj ((''type'', JStr t) # fs)"

definition opt_value :: "('a \<Rightarrow> json_value) \<Rightarrow> 'a option \<Rightarrow> json_value" where
  "opt_value f x = (case x of None \<Rightarrow> JNull | Some a \<Rightarrow> f a)"

abbreviation word_value :: "'a::len word \<Rightarrow> json_value" where
  "word_value w \<equiv> JInt (uint w)"

abbreviation nat_value :: "nat \<Rightarrow> json_value" where
  "nat_value n \<equiv> JInt (int n)"

definition filter_value :: "frame_filter \<Rightarrow> json_value" where
  "filter_value f = JObj
     [(''iface'', opt_value JStr (flt_iface f)),
      (''id'', opt_value word_value (flt_id f)),
      (''id_mask'', opt_value word_value (flt_id_mask f)),
      (''is_fd'', opt_value JBool (flt_is_fd f)),
      (''min_len'', opt_value nat_value (flt_min_len f)),
      (''max_len'', opt_value nat_value (flt_max_len f))]"

fun request_value :: "ClientRequest \<Rightarrow> json_value" where
  "request_value (ClientRequest.ClientHello client protocol) =
     tagged ''client_hello'' [(''client'', JStr client), (''protocol'', JStr protocol)]"
| "request_value (ClientRequest.Ping i) = tagged ''ping'' [(''id'', word_value i)]"
| "request_value ClientRequest.ListIfaces = tagged ''list_ifaces'' []"
| "request_value (ClientRequest.Subscribe ifaces filters) =
     tagged ''subscribe'' [(''ifaces'', JArr (map JStr ifaces)), (''filters'', JArr (map filter_value filters))]"
| "request_value ClientRequest.Unsubscribe = tagged ''unsubscribe'' []"
| "request_value (ClientRequest.SendFrame iface i is_fd brs esi data_hex) =
     tagged ''send_frame''
       [(''iface'', JStr iface), (''id'', word_value i), (''is_fd'', JBool is_fd), (''brs'', JBool brs),
        (''esi'', JBool esi), (''data_hex'', JStr data_hex)]"

fun response_value :: "DaemonResponse \<Rightarrow> json_value" where
  "response_value (DaemonResponse.HelloAck version features server_name) =
     tagged ''hello_ack''
       [(''version'', JStr version), (''features'', JArr (map JStr features)), (''server_name'', JStr server_name)]"
| "response_value (DaemonResponse.Pong i) = tagged ''pong'' [(''id'', word_value i)]"
| "response_value (DaemonResponse.Ifaces items) = tagged ''ifaces'' [(''items'', JArr (map JStr items))]"
| "response_value (DaemonResponse.Subscribed ifaces) = tagged ''subscribed'' [(''ifaces'', JArr (map JStr ifaces))]"
| "response_value DaemonResponse.Unsubscribed = tagged ''unsubscribed'' []"
| "response_value (DaemonResponse.Frame ts_ms iface dir i is_fd data_hex) =
     tagged ''frame''
       [(''ts_ms'', word_value ts_ms), (''iface'', JStr iface), (''dir'', JStr dir), (''id'', word_value i),
        (''is_fd'', JBool is_fd), (''data_hex'', JStr data_hex)]"
| "response_value (DaemonResponse.SendAck ok error_message) =
     tagged ''send_ack''
       ((''ok'', JBool ok) # (case error_message of None \<Rightarrow> [] | Some m \<Rightarrow> [(''error_message'', JStr m)]))"
| "response_value (DaemonResponse.Error message) = tagged ''error'' [(''message'', JStr message)]"

section \<open>Deserializing\<close>

fun as_string :: "json_value \<Rightarrow> string option" where
  "as_string (JStr s) = Some s"
| "as_string _ = None"

fun as_bool :: "json_value \<Rightarrow> bool option" where
  "as_bool (JBool b) = Some b"
| "as_bool _ = None"

text \<open>Integers outside the range of the type are refused.\<close>

fun as_word :: "json_value \<Rightarrow> 'a::len word option" where
  "as_word (JInt i) = (if 0 \<le> i \<and> i < 2 ^ LENGTH('a) then Some (word_of_int i) else None)"
| "as_word _ = None"

fun as_usize :: "json_value \<Rightarrow> nat option" where
  "as_usize (JInt i) = (if 0 \<le> i \<and> i < 2 ^ 64 then Some (nat i) else None)"
| "as_usize _ = None"

fun as_vec :: "(json_value \<Rightarrow> 'a option) \<Rightarrow> json_value \<Rightarrow> 'a list option" where
  "as_vec f (JArr vs) = those (map f vs)"
| "as_vec f _ = None"

definition as_option :: "(json_value \<Rightarrow> 'a option) \<Rightarrow> json_value \<Rightarrow> 'a option option" where
  "as_option f v = (if v = JNull then Some None else map_option Some (f v))"

type_synonym fields = "(string \<times> json_value) list"

text \<open>The values given for a key, and a field of a struct read from them.\<close>

definition field_values :: "fields \<Rightarrow> string \<Rightarrow> json_value list" where
  "field_values fs k = map snd (filter (\<lambda>(k', v). k' = k) fs)"

definition required :: "fields \<Rightarrow> string \<Rightarrow> (json_value \<Rightarrow> 'a option) \<Rightarrow> 'a option" where
  "required fs k f = (case field_values fs k of [v] \<Rightarrow> f v | _ \<Rightarrow> None)"

definition defaulted :: "fields \<Rightarrow> string \<Rightarrow> (json_value \<Rightarrow> 'a option) \<Rightarrow> 'a \<Rightarrow> 'a option" where
  "defaulted fs k f a = (case field_values fs k of [] \<Rightarrow> Some a | [v] \<Rightarrow> f v | _ \<Rightarrow> None)"

text \<open>What the derived readers make of an array in place of an object.\<close>

record seq_forms =
  request_seq :: "json_value list \<Rightarrow> ClientRequest option"
  response_seq :: "json_value list \<Rightarrow> DaemonResponse option"
  filter_seq :: "json_value list \<Rightarrow> frame_filter option"

fun filter_of_value :: "seq_forms \<Rightarrow> json_value \<Rightarrow> frame_filter option" where
  "filter_of_value seqs (JObj fs) =
     do { iface \<leftarrow> defaulted fs ''iface'' (as_option as_string) None;
          i \<leftarrow> defaulted fs ''id'' (as_option as_word) None;
          id_mask \<leftarrow> defaulted fs ''id_mask'' (as_option as_word) None;
          is_fd \<leftarrow> defaulted fs ''is_fd'' (as_option as_bool) None;
          min_len \<leftarrow> defaulted fs ''min_len'' (as_option as_usize) None;
          max_len \<leftarrow> defaulted fs ''max_len'' (as_option as_usize) None;
          Some \<lparr>flt_iface = iface, flt_id = i, flt_id_mask = id_mask, flt_is_fd = is_fd,
                flt_min_len = min_len, flt_max_len = max_len\<rparr> }"
| "filter_of_value seqs (JArr vs) = filter_seq seqs vs"
| "filter_of_value seqs _ = None"

definition request_fields :: "seq_forms \<Rightarrow> string \<Rightarrow> fields \<Rightarrow> ClientRequest option" where
  "request_fields seqs t fs =
     (if t = ''client_hello''
      then do { client \<leftarrow> required fs ''client'' as_string;
                protocol \<leftarrow> required fs ''protocol'' as_string;
                Some (ClientRequest.ClientHello client protocol) }
      else if t = ''ping'' then do { i \<leftarrow> required fs ''id'' as_word; Some (ClientRequest.Ping i) }
      else if t = ''list_ifaces'' then Some ClientRequest.ListIfaces
      else if t = ''subscribe''
      then do { ifaces \<leftarrow> required fs ''ifaces'' (as_vec as_string);
                filters \<leftarrow> defaulted fs ''filters'' (as_vec (filter_of_value seqs)) [];
                Some (ClientRequest.Subscribe ifaces filters) }
      else if t = ''unsubscribe'' then Some ClientRequest.Unsubscribe
      else if t = ''send_frame''
      then do { iface \<leftarrow> required fs ''iface'' as_string;
                i \<leftarrow> required fs ''id'' as_word;
                is_fd \<leftarrow> required fs ''is_fd'' as_bool;
                brs \<leftarrow> defaulted fs ''brs'' as_bool False;
                esi \<leftarrow> defaulted fs ''esi'' as_bool False;
                data_hex \<leftarrow> required fs ''data_hex'' as_string;
                Some (ClientRequest.SendFrame iface i is_fd brs esi data_hex) }
      else None)"

definition response_fields :: "string \<Rightarrow> fields \<Rightarrow> DaemonResponse option" where
  "response_fields t fs =
     (if t = ''hello_ack''
      then do { version \<leftarrow> required fs ''version'' as_string;
                features \<leftarrow> required fs ''features'' (as_vec as_string);
                server_name \<leftarrow> required fs ''server_name'' as_string;
                Some (DaemonResponse.HelloAck version features server_name) }
      else if t = ''pong'' then do { i \<leftarrow> required fs ''id'' as_word; Some (DaemonResponse.Pong i) }
      else if t = ''ifaces''
      then do { items \<leftarrow> required fs ''items'' (as_vec as_string); Some (DaemonResponse.Ifaces items) }
      else if t = ''subscribed''
      then do { ifaces \<leftarrow> required fs ''ifaces'' (as_vec as_string); Some (DaemonResponse.Subscribed ifaces) }
      else if t = ''unsubscribed'' then Some DaemonResponse.Unsubscribed
      else if t = ''frame''
      then do { ts_ms \<leftarrow> required fs ''ts_ms'' as_word;
                iface \<leftarrow> required fs ''iface'' as_string;
                dir \<leftarrow> required fs ''dir'' as_string;
                i \<leftarrow> required fs ''id'' as_word;
                is_fd \<leftarrow> required fs ''is_fd'' as_bool;
                data_hex \<leftarrow> required fs ''data_hex'' as_string;
                Some (DaemonResponse.Frame ts_ms iface dir i is_fd data_hex) }
      else if t = ''send_ack''
      then do { ok \<leftarrow> required fs ''ok'' as_bool;
                error_message \<leftarrow> defaulted fs ''error_message'' (as_option as_string) None;
                Some (DaemonResponse.SendAck ok error_message) }
      else if t = ''error''
      then do { message \<leftarrow> required fs ''message'' as_string; Some (DaemonResponse.Error message) }
      else None)"

definition untag :: "(json_value list \<Rightarrow> 'a option) \<Rightarrow> (string \<Rightarrow> fields \<Rightarrow> 'a option) \<Rightarrow> json_value \<Rightarrow> 'a option" where
  "untag seq variant v =
     (case v of
        JObj fs \<Rightarrow> (case field_values fs ''type'' of [JStr t] \<Rightarrow> variant t fs | _ \<Rightarrow> None)
      | JArr vs \<Rightarrow> seq vs
      | _ \<Rightarrow> None)"

definition request_of_value :: "seq_forms \<Rightarrow> json_value \<Rightarrow> ClientRequest option" where
  "request_of_value seqs = untag (request_seq seqs) (request_fields seqs)"

definition response_of_value :: "seq_forms \<Rightarrow> json_value \<Rightarrow> DaemonResponse option" where
  "response_of_value seqs = untag (response_seq seqs) response_fields"

section \<open>Round trips\<close>

text \<open>The only part of a request that is wider here than in the program is \<open>usize\<close>.\<close>

definition filter_in_range :: "frame_filter \<Rightarrow> bool" where
  "filter_in_range f \<longleftrightarrow> (\<forall>n \<in> set_option (flt_min_len f) \<union> set_option (flt_max_len f). n < 2 ^ 64)"

fun request_in_range :: "ClientRequest \<Rightarrow> bool" where
  "request_in_range (ClientRequest.Subscribe ifaces filters) \<longleftrightarrow> list_all filter_in_range filters"
| "request_in_range _ \<longleftrightarrow> True"

lemma as_word_value [simp]: "as_word (word_value w) = Some (w :: 'a::len word)"
  using uint_lt2p [of w] by simp

declare as_word.simps(1) [simp del]

lemma as_string_JStr [simp]: "as_string \<circ> JStr = Some"
  by (simp add: fun_eq_iff)

lemma those_map_Some [simp]: "those (map Some xs) = Some xs"
  by (induction xs) simp_all

lemma as_option_opt_value [simp]:
  "(\<And>a. x = Some a \<Longrightarrow> f (g a) = Some a \<and> g a \<noteq> JNull) \<Longrightarrow> as_option f (opt_value g x) = Some x"
  by (cases x) (simp_all add: as_option_def opt_value_def)

lemma field_values_Nil [simp]: "field_values [] k = []"
  by (simp add: field_values_def)

lemma field_values_Cons [simp]: "field_values ((k', v) # fs) k = (if k' = k then v # field_values fs k else field_values fs k)"
  by (simp add: field_values_def)

text \<open>Without repeated keys there is at most one value.\<close>

lemma field_values_None: "map_of fs k = None \<longleftrightarrow> field_values fs k = []"
  by (induction fs) auto

lemma field_values_distinct:
  "distinct (map fst fs) \<Longrightarrow> field_values fs k = (case map_of fs k of None \<Rightarrow> [] | Some v \<Rightarrow> [v])"
proof (induction fs)
  case (Cons kv fs)
  obtain k' v where kv: "kv = (k', v)" by (rule prod.exhaust)
  with Cons.prems have "map_of fs k' = None" by (auto simp: map_of_eq_None_iff)
  with kv Cons show ?case by (auto simp: field_values_None)
qed simp

lemma filter_roundtrip: "filter_in_range f \<Longrightarrow> filter_of_value seqs (filter_value f) = Some f"
  by (simp add: filter_value_def defaulted_def filter_in_range_def)

lemma filters_roundtrip: "list_all filter_in_range fs \<Longrightarrow> those (map (filter_of_value seqs \<circ> filter_value) fs) = Some fs"
  by (induction fs) (simp_all add: filter_roundtrip)

lemmas json_simps = request_of_value_def response_of_value_def untag_def request_fields_def response_fields_def
  tagged_def required_def defaulted_def

text \<open>A request is read from every object that has its fields, in any order and among others.\<close>

lemma request_value_extended:
  assumes "request_value r = JObj fs" and "map_of fs \<subseteq>\<^sub>m map_of gs" and "distinct (map fst gs)" and "request_in_range r"
  shows "request_of_value seqs (JObj gs) = Some r"
proof -
  have get: "map_of fs k = Some v \<Longrightarrow> field_values gs k = [v]" for k v
    using assms(2) field_values_distinct [OF assms(3), of k] by (force simp: map_le_def dom_def)
  show ?thesis
    using assms(1,4) get filters_roundtrip
    by (cases r) (auto simp: json_simps)
qed

lemma request_roundtrip: "request_in_range r \<Longrightarrow> request_of_value seqs (request_value r) = Some r"
  by (cases r) (auto simp: json_simps filters_roundtrip)

lemma response_roundtrip: "response_of_value seqs (response_value r) = Some r"
  by (cases r) (auto simp: json_simps as_option_def split: option.split)

lemma response_of_value_cong:
  assumes "map_of fs = map_of gs" and "distinct (map fst fs)" and "distinct (map fst gs)"
  shows "response_of_value seqs (JObj fs) = response_of_value seqs (JObj gs)"
proof -
  have same: "field_values fs k = field_values gs k" for k
    using assms by (simp add: field_values_distinct)
  then have "response_fields t fs = response_fields t gs" for t
    by (simp add: response_fields_def required_def defaulted_def)
  with same show ?thesis
    by (auto simp: response_of_value_def untag_def split: list.split json_value.split)
qed

section \<open>What is accepted\<close>

lemma as_string_Some: "as_string v = Some t \<longleftrightarrow> v = JStr t"
  by (cases v) auto

lemma as_bool_Some: "as_bool v = Some b \<longleftrightarrow> v = JBool b"
  by (cases v) auto

lemma as_word_Some: "as_word v = Some w \<longleftrightarrow> v = word_value (w :: 'a::len word)"
proof (cases v)
  case (JInt i)
  then show ?thesis
    using uint_lt2p [of w] by (auto simp: as_word.simps uint_word_of_int)
qed auto

lemma those_Some: "those xs = Some ys \<longleftrightarrow> xs = map Some ys"
  by (induction xs arbitrary: ys) (auto split: option.splits)

lemma as_vec_Some: "as_vec f v = Some xs \<longleftrightarrow> (\<exists>vs. v = JArr vs \<and> map f vs = map Some xs)"
  by (cases v) (auto simp: those_Some)

lemma strings_read: "map as_string vs = map Some xs \<longleftrightarrow> vs = map JStr xs"
  by (induction vs arbitrary: xs) (auto simp: Cons_eq_map_conv as_string_Some)

lemma as_usize_iff: "as_usize v = Some n \<longleftrightarrow> v = nat_value n \<and> n < 2 ^ 64"
  by (cases v) auto

lemma filter_value_inj: "filter_value f = filter_value g \<Longrightarrow> f = g"
proof -
  have inj: "opt_value h x = opt_value h y \<Longrightarrow> x = y" if "\<And>a b. h a = h b \<Longrightarrow> a = b" "\<And>a. h a \<noteq> JNull" for h x y
    using that by (auto simp: opt_value_def split: option.splits) metis+
  assume "filter_value f = filter_value g"
  then show "f = g"
    by (intro frame_filter.equality) (auto simp: filter_value_def dest!: inj [rotated 2] intro: unsigned_word_eqI)
qed

text \<open>
  How a field of a variant may stand in an object: once and as it is, or not at all where it has a
  default, or, for the filters, as an array of values that are read one by one. A field of a filter
  stands as it is, or not at all if it is none.
\<close>

definition stands_for :: "seq_forms \<Rightarrow> fields \<Rightarrow> string \<times> json_value \<Rightarrow> bool" where
  "stands_for seqs fs kx \<longleftrightarrow> (case kx of (k, x) \<Rightarrow>
     (field_values fs k = [x] \<and> k \<noteq> ''filters'')
     \<or> (field_values fs k = [] \<and> (k, x) \<in> {(''brs'', JBool False), (''esi'', JBool False), (''filters'', JArr [])})
     \<or> (k = ''filters'' \<and> (\<exists>vs filters. field_values fs k = [JArr vs] \<and> x = JArr (map filter_value filters)
          \<and> map (filter_of_value seqs) vs = map Some filters)))"

definition filter_stands :: "fields \<Rightarrow> string \<times> json_value \<Rightarrow> bool" where
  "filter_stands fs kx \<longleftrightarrow> (case kx of (k, x) \<Rightarrow> field_values fs k = [x] \<or> field_values fs k = [] \<and> x = JNull)"

lemmas accepted_simps = bind_eq_Some_conv as_string_Some as_bool_Some as_word_Some as_vec_Some strings_read

lemma map_filter_value_eq: "map filter_value fs = map filter_value gs \<longleftrightarrow> fs = gs"
  by (metis filter_value_inj injI inj_map_eq_map)

lemma required_Some: "required fs k f = Some b \<longleftrightarrow> (\<exists>v. field_values fs k = [v] \<and> f v = Some b)"
  by (auto simp: required_def split: list.splits)

lemma defaulted_Some:
  "defaulted fs k f a = Some b \<longleftrightarrow> field_values fs k = [] \<and> b = a \<or> (\<exists>v. field_values fs k = [v] \<and> f v = Some b)"
  by (auto simp: defaulted_def split: list.splits)

lemma optional_Some:
  assumes "\<And>v a. f v = Some a \<longleftrightarrow> v = g a \<and> P a" and "\<And>a. g a \<noteq> JNull"
  shows "defaulted fs k (as_option f) None = Some x \<longleftrightarrow>
    filter_stands fs (k, opt_value g x) \<and> (case x of None \<Rightarrow> True | Some a \<Rightarrow> P a)"
  using assms
  by (cases x) (auto simp: defaulted_Some filter_stands_def as_option_def opt_value_def split: option.splits if_splits)

lemma filter_of_value_iff:
  "filter_of_value seqs (JObj fs) = Some f \<longleftrightarrow>
     filter_in_range f \<and> (\<exists>gs. filter_value f = JObj gs \<and> list_all (filter_stands fs) gs)"
proof -
  have str: "defaulted fs k (as_option as_string) None = Some x \<longleftrightarrow> filter_stands fs (k, opt_value JStr x)" for k x
    using optional_Some [of as_string JStr "\<lambda>_. True"] by (auto simp: as_string_Some split: option.splits)
  have word: "defaulted fs k (as_option as_word) None = Some x \<longleftrightarrow> filter_stands fs (k, opt_value word_value (x :: u32 option))" for k x
    using optional_Some [of as_word "word_value :: u32 \<Rightarrow> _" "\<lambda>_. True"] by (auto simp: as_word_Some split: option.splits)
  have bool: "defaulted fs k (as_option as_bool) None = Some x \<longleftrightarrow> filter_stands fs (k, opt_value JBool x)" for k x
    using optional_Some [of as_bool JBool "\<lambda>_. True"] by (auto simp: as_bool_Some split: option.splits)
  have usize: "defaulted fs k (as_option as_usize) None = Some x \<longleftrightarrow>
      filter_stands fs (k, opt_value nat_value x) \<and> (\<forall>n\<in>set_option x. n < 2 ^ 64)" for k x
    using optional_Some [of as_usize nat_value "\<lambda>n. n < 2 ^ 64"] by (auto simp: as_usize_iff split: option.splits)
  show ?thesis
    by (cases f) (auto simp: bind_eq_Some_conv str word bool usize filter_value_def filter_in_range_def)
qed

lemma request_fields_stand:
  assumes "request_fields seqs t fs = Some r" and "field_values fs ''type'' = [JStr t]"
  shows "\<exists>gs. request_value r = JObj gs \<and> list_all (stands_for seqs fs) gs"
  using assms
  by (auto simp: request_fields_def tagged_def required_Some defaulted_Some accepted_simps stands_for_def
      split: if_splits)

lemma request_fields_found:
  assumes "request_value r = JObj gs" and "list_all (stands_for seqs fs) gs"
  shows "request_of_value seqs (JObj fs) = Some r"
  using assms
  by (cases r)
    (auto simp: request_of_value_def untag_def request_fields_def tagged_def required_Some defaulted_Some
      accepted_simps stands_for_def map_filter_value_eq)

lemma request_of_object_iff:
  "request_of_value seqs (JObj fs) = Some r \<longleftrightarrow> (\<exists>gs. request_value r = JObj gs \<and> list_all (stands_for seqs fs) gs)"
proof
  assume "request_of_value seqs (JObj fs) = Some r"
  then obtain t where "field_values fs ''type'' = [JStr t]" "request_fields seqs t fs = Some r"
    by (auto simp: request_of_value_def untag_def split: json_value.splits list.splits)
  with request_fields_stand show "\<exists>gs. request_value r = JObj gs \<and> list_all (stands_for seqs fs) gs"
    by blast
qed (use request_fields_found in blast)

section \<open>Texts\<close>

text \<open>
  The values \<open>serde_documented\<close> speaks of: keys are not repeated, nesting is far below the depth at
  which \<open>serde_json\<close> gives up, no array is an element of an array (so no filter is written as one),
  and numbers are integers.
\<close>

fun is_array :: "json_value \<Rightarrow> bool" where
  "is_array (JArr vs) \<longleftrightarrow> True"
| "is_array _ \<longleftrightarrow> False"

fun plain :: "nat \<Rightarrow> json_value \<Rightarrow> bool" where
  "plain (Suc n) (JObj fs) \<longleftrightarrow> distinct (map fst fs) \<and> list_all (plain n) (map snd fs)"
| "plain (Suc n) (JArr vs) \<longleftrightarrow> list_all (\<lambda>v. plain n v \<and> \<not> is_array v) vs"
| "plain 0 (JObj fs) \<longleftrightarrow> False"
| "plain 0 (JArr vs) \<longleftrightarrow> False"
| "plain n (JFloat s) \<longleftrightarrow> False"
| "plain n _ \<longleftrightarrow> True"

abbreviation plain_object :: "fields \<Rightarrow> bool" where
  "plain_object fs \<equiv> plain 100 (JObj fs)"

definition line_feed :: char where
  "line_feed = char_of_byte newline"

text \<open>
  What \<open>serde_json\<close> documents, for \<open>print\<close> (\<open>to_string\<close> and \<open>to_vec\<close> of a value), \<open>parse\<close>
  (\<open>from_str\<close> to a value) and the typed functions of the protocol: texts are compact, a response is
  printed as its value, a text of a plain object is a request exactly if the derived reader takes the
  object, parsing an object gives its fields back in some order and without repetition, an object's text
  cut short is not JSON, and a line feed at the end does not matter.
\<close>

definition serde_documented :: "seq_forms \<Rightarrow> json \<Rightarrow> (json_value \<Rightarrow> string) \<Rightarrow> (string \<Rightarrow> json_value option) \<Rightarrow> bool" where
  "serde_documented seqs json print parse \<longleftrightarrow>
     (\<forall>fs. plain_object fs \<longrightarrow> newline \<notin> set (as_bytes (print (JObj fs))))
     \<and> (\<forall>r. to_string json r = Inr (print (response_value r)))
     \<and> (\<forall>fs r. plain_object fs \<longrightarrow> (from_str json (print (JObj fs)) = Inr r \<longleftrightarrow> request_of_value seqs (JObj fs) = Some r))
     \<and> (\<forall>r fs. response_value r = JObj fs \<longrightarrow> (\<exists>gs. parse (print (JObj fs)) = Some (JObj gs)
         \<and> map_of gs = map_of fs \<and> distinct (map fst gs)))
     \<and> (\<forall>fs t. strict_prefix t (print (JObj fs)) \<longrightarrow> parse t = None \<and> (\<forall>r. from_str json t \<noteq> Inr r))
     \<and> (\<forall>t. parse (t @ [line_feed]) = parse t)"

lemma plain_scalars: "plain n (JStr s)" "plain n (JInt i)" "plain n (JBool b)" "plain n JNull"
  by (cases n; simp)+

lemma plain_opt_value: "(\<And>a. plain n (f a)) \<Longrightarrow> plain n (opt_value f x)"
  by (simp add: opt_value_def plain_scalars split: option.split)

lemma plain_filter_value: "plain (Suc n) (filter_value f)" "\<not> is_array (filter_value f)"
  by (simp_all add: filter_value_def plain_scalars plain_opt_value)

lemma plain_request_value: "plain (Suc (Suc (Suc n))) (request_value r)"
  by (cases r) (simp_all add: tagged_def plain_scalars plain_filter_value list_all_iff)

lemma plain_response_value: "plain (Suc (Suc (Suc n))) (response_value r)"
  by (cases r) (simp_all add: tagged_def plain_scalars list_all_iff split: option.split)

lemma request_object:
  obtains fs where "request_value r = JObj fs" and "plain_object fs"
proof -
  obtain fs where fs: "request_value r = JObj fs" by (cases r) (simp_all add: tagged_def)
  with plain_request_value [of 97 r] show thesis by (intro that) (simp_all add: numeral_eq_Suc)
qed

lemma response_object:
  obtains fs where "response_value r = JObj fs" and "plain_object fs"
proof -
  obtain fs where fs: "response_value r = JObj fs" by (cases r) (simp_all add: tagged_def)
  with plain_response_value [of 97 r] show thesis by (intro that) (simp_all add: numeral_eq_Suc)
qed

lemma serde_json_documented: "serde_documented seqs json print parse \<Longrightarrow> json_documented json"
  unfolding serde_documented_def json_documented_def using response_object by metis

lemma request_text:
  assumes "serde_documented seqs json print parse" and "request_in_range r"
  shows "from_str json (print (request_value r)) = Inr r"
proof -
  obtain fs where "request_value r = JObj fs" "plain_object fs" by (rule request_object)
  with assms request_roundtrip [OF assms(2), of seqs] show ?thesis unfolding serde_documented_def by simp
qed

lemma response_text:
  assumes "serde_documented seqs json print parse"
  shows "Option.bind (parse (print (response_value r))) (response_of_value seqs) = Some r"
proof -
  obtain fs where fs: "response_value r = JObj fs" and p: "plain_object fs" by (rule response_object)
  obtain gs where gs: "parse (print (JObj fs)) = Some (JObj gs)" "map_of gs = map_of fs" "distinct (map fst gs)"
    using assms fs unfolding serde_documented_def by blast
  have "distinct (map fst fs)" using p by (simp add: numeral_eq_Suc)
  from response_of_value_cong [OF gs(2,3) this, of seqs] gs(1) fs response_roundtrip [of seqs r] show ?thesis by simp
qed

section \<open>Properties\<close>

text \<open>C8: Requests and responses survive JSON. The text printed for a request is read by the daemon as that
  request; so is every other object that has its fields, in any order and with others beside them. The
  text the daemon prints for a response, parsed by a client, gives that response.\<close>

theorem json_roundtrip:
  assumes "serde_documented seqs json print parse" and "request_in_range r"
    and "request_value r = JObj fs" and "map_of fs \<subseteq>\<^sub>m map_of gs" and "plain_object gs"
  shows "from_str json (print (request_value r)) = Inr r \<and> from_str json (print (JObj gs)) = Inr r
    \<and> (\<exists>text. to_string json response = Inr text \<and> Option.bind (parse text) (response_of_value seqs) = Some response)"
proof (intro conjI)
  show "from_str json (print (request_value r)) = Inr r" by (rule request_text [OF assms(1,2)])
  show "from_str json (print (JObj gs)) = Inr r"
    using assms(1,5) request_value_extended [OF assms(3,4) _ assms(2), of seqs] unfolding serde_documented_def
    by (simp add: numeral_eq_Suc)
  show "\<exists>text. to_string json response = Inr text \<and> Option.bind (parse text) (response_of_value seqs) = Some response"
    using assms(1) response_text [OF assms(1), of response] unfolding serde_documented_def by blast
qed

text \<open>C14: The objects accepted as requests are exactly the typed ones, whatever arrays \<open>serde\<close> takes elsewhere:
  an object is read as a request if and only if its \<open>type\<close> names the variant, once, and every field of
  the variant is there once with a value of the field's type, strings as strings, flags as booleans,
  integers within their range, or is missing and has a default (\<open>brs\<close>, \<open>esi\<close> and \<open>filters\<close> only). Likewise
  for an object read as a filter, whose fields may all be missing or null. Scalars are refused.\<close>

theorem json_requests_typed:
  "(request_of_value seqs (JObj fs) = Some r \<longleftrightarrow>
      (\<exists>gs. request_value r = JObj gs \<and> list_all (stands_for seqs fs) gs))
   \<and> (filter_of_value seqs (JObj fs) = Some flt \<longleftrightarrow>
      filter_in_range flt \<and> (\<exists>gs. filter_value flt = JObj gs \<and> list_all (filter_stands fs) gs))
   \<and> list_all (\<lambda>v. request_of_value seqs v = None \<and> filter_of_value seqs v = None)
       [JNull, JBool b, JInt i, JFloat x, JStr x]"
  using request_of_object_iff filter_of_value_iff by (simp add: request_of_value_def untag_def)

end
