(* ===== verification/Json_Sample.thy ===== *)
theory Json_Sample
  imports Protocol_Json
begin

text \<open>
  A printer and a parser that behave as \<open>serde_documented\<close> says, on texts of their own: two characters
  per instruction of a stack machine that builds the value, and an end mark. They show that the
  hypothesis can hold, and witnesses are evaluated on them.
\<close>

section \<open>Instructions\<close>

type_synonym instr = "char \<times> char"

definition escape :: "char \<Rightarrow> instr" where
  "escape c = (if c = line_feed then (CHR ''l'', CHR ''.'') else (CHR ''c'', c))"

fun instrs :: "json_value \<Rightarrow> instr list" where
  "instrs JNull = [(CHR ''n'', CHR ''.'')]"
| "instrs (JBool b) = [(CHR ''b'', if b then CHR ''t'' else CHR ''f'')]"
| "instrs (JInt i) = (CHR ''i'', CHR ''.'') #
     replicate (nat \<bar>i\<bar>) (if i < 0 then (CHR ''-'', CHR ''.'') else (CHR ''+'', CHR ''.''))"
| "instrs (JFloat s) = (CHR ''s'', CHR ''.'') # map escape s @ [(CHR ''d'', CHR ''.'')]"
| "instrs (JStr s) = (CHR ''s'', CHR ''.'') # map escape s"
| "instrs (JArr vs) = (CHR ''a'', CHR ''.'') # concat (map (\<lambda>v. instrs v @ [(CHR '','', CHR ''.'')]) vs)"
| "instrs (JObj fs) = (CHR ''o'', CHR ''.'') #
     concat (map (\<lambda>kv. case kv of (k, v) \<Rightarrow> (CHR ''s'', CHR ''.'') # map escape k @ instrs v @ [(CHR '':'', CHR ''.'')]) fs)"

text \<open>The value on top goes into the array below it, or under its key into the object below.\<close>

fun store :: "char \<Rightarrow> json_value \<Rightarrow> json_value list \<Rightarrow> json_value list option" where
  "store op v (JArr vs # st) = (if op = CHR '','' then Some (JArr (vs @ [v]) # st) else None)"
| "store op v (JStr k # JObj fs # st) = (if op = CHR '':'' then Some (JObj (fs @ [(k, v)]) # st) else None)"
| "store op v st = None"

definition exec :: "instr \<Rightarrow> json_value list \<Rightarrow> json_value list option" where
  "exec i st = (case i of (op, arg) \<Rightarrow>
     if op = CHR ''n'' then Some (JNull # st)
     else if op = CHR ''b'' then Some (JBool (arg = CHR ''t'') # st)
     else if op = CHR ''i'' then Some (JInt 0 # st)
     else if op = CHR ''s'' then Some (JStr [] # st)
     else if op = CHR ''a'' then Some (JArr [] # st)
     else if op = CHR ''o'' then Some (JObj [] # st)
     else if op \<in> {CHR '','', CHR '':''} then (case st of v # rest \<Rightarrow> store op v rest | [] \<Rightarrow> None)
     else case st of
       JInt n # rest \<Rightarrow>
         if op = CHR ''+'' then Some (JInt (n + 1) # rest)
         else if op = CHR ''-'' then Some (JInt (n - 1) # rest)
         else None
     | JStr s # rest \<Rightarrow>
         if op = CHR ''c'' then Some (JStr (s @ [arg]) # rest)
         else if op = CHR ''l'' then Some (JStr (s @ [line_feed]) # rest)
         else if op = CHR ''d'' then Some (JFloat s # rest)
         else None
     | _ \<Rightarrow> None)"

fun execs :: "instr list \<Rightarrow> json_value list \<Rightarrow> json_value list option" where
  "execs [] st = Some st"
| "execs (i # is) st = Option.bind (exec i st) (execs is)"

fun flat :: "instr list \<Rightarrow> string" where
  "flat [] = []"
| "flat ((op, arg) # is) = op # arg # flat is"

fun decode_text :: "string \<Rightarrow> json_value list \<Rightarrow> json_value option" where
  "decode_text (op # arg # rest) st =
     (if op = CHR ''.'' then (case (rest, st) of ([], [v]) \<Rightarrow> Some v | _ \<Rightarrow> None)
      else Option.bind (exec (op, arg) st) (decode_text rest))"
| "decode_text _ st = None"

definition sample_print :: "json_value \<Rightarrow> string" where
  "sample_print v = flat (instrs v @ [(CHR ''.'', CHR ''.'')])"

definition sample_parse :: "string \<Rightarrow> json_value option" where
  "sample_parse t = decode_text (rev (dropWhile (\<lambda>c. c = line_feed) (rev t))) []"

text \<open>No array is read as a struct here.\<close>

definition no_seqs :: seq_forms where
  "no_seqs = \<lparr>request_seq = (\<lambda>_. None), response_seq = (\<lambda>_. None), filter_seq = (\<lambda>_. None)\<rparr>"

definition sample_serde :: json where
  "sample_serde =
     \<lparr>from_str = (\<lambda>t. case Option.bind (sample_parse t) (request_of_value no_seqs) of
        None \<Rightarrow> Inl ''no request'' | Some r \<Rightarrow> Inr r),
      to_string = (\<lambda>r. Inr (sample_print (response_value r)))\<rparr>"

lemma execs_append: "execs (is @ js) st = Option.bind (execs is st) (execs js)"
  by (induction "is" arbitrary: st) (auto split: bind_splits)

lemma execs_string: "execs (map escape t) (JStr s # st) = Some (JStr (s @ t) # st)"
  by (induction t arbitrary: s) (auto simp: exec_def escape_def)

lemma execs_int: "execs (replicate n (CHR ''+'', CHR ''.'')) (JInt i # st) = Some (JInt (i + int n) # st)"
    "execs (replicate n (CHR ''-'', CHR ''.'')) (JInt i # st) = Some (JInt (i - int n) # st)"
  by (induction n arbitrary: i) (simp_all add: exec_def algebra_simps)

lemma execs_array:
  assumes "\<And>v st. v \<in> set vs \<Longrightarrow> execs (instrs v) st = Some (v # st)"
  shows "execs (concat (map (\<lambda>v. instrs v @ [(CHR '','', CHR ''.'')]) vs)) (JArr us # st) = Some (JArr (us @ vs) # st)"
  using assms by (induction vs arbitrary: us) (simp_all add: execs_append exec_def)

lemma execs_object:
  assumes "\<And>v st. v \<in> snd ` set fs \<Longrightarrow> execs (instrs v) st = Some (v # st)"
  shows "execs (concat (map (\<lambda>kv. case kv of (k, v) \<Rightarrow>
      (CHR ''s'', CHR ''.'') # map escape k @ instrs v @ [(CHR '':'', CHR ''.'')]) fs)) (JObj gs # st)
    = Some (JObj (gs @ fs) # st)"
  using assms
proof (induction fs arbitrary: gs)
  case (Cons kv fs)
  obtain k v where kv: "kv = (k, v)" by (rule prod.exhaust)
  then have "execs (instrs v) (JStr k # JObj gs # st) = Some (v # JStr k # JObj gs # st)" using Cons.prems [of v] by simp
  moreover have "exec (CHR ''s'', CHR ''.'') (JObj gs # st) = Some (JStr [] # JObj gs # st)" by (simp add: exec_def)
  moreover have "exec (CHR '':'', CHR ''.'') (v # JStr k # JObj gs # st) = Some (JObj (gs @ [(k, v)]) # st)"
    by (simp add: exec_def)
  moreover have "execs (instrs u) st' = Some (u # st')" if "u \<in> snd ` set fs" for u st'
    using that by (intro Cons.prems) auto
  note Cons.IH [OF this, of "gs @ [(k, v)]"]
  ultimately show ?case by (simp add: kv execs_append execs_string)
qed simp

lemma execs_instrs: "execs (instrs v) st = Some (v # st)"
proof (induction v arbitrary: st rule: instrs.induct)
  case (3 i)
  have "exec (CHR ''i'', CHR ''.'') st = Some (JInt 0 # st)" by (simp add: exec_def)
  then show ?case by (cases "i < 0") (simp_all add: execs_int)
next
  case (4 s)
  have "exec (CHR ''s'', CHR ''.'') st = Some (JStr [] # st)" "exec (CHR ''d'', CHR ''.'') (JStr s # st) = Some (JFloat s # st)"
    by (simp_all add: exec_def)
  then show ?case by (simp add: execs_append execs_string)
next
  case (5 s)
  have "exec (CHR ''s'', CHR ''.'') st = Some (JStr [] # st)" by (simp add: exec_def)
  then show ?case by (simp add: execs_string)
next
  case (6 vs)
  have "exec (CHR ''a'', CHR ''.'') st = Some (JArr [] # st)" by (simp add: exec_def)
  then show ?case using execs_array [of vs "[]"] 6 by simp
next
  case (7 fs)
  have "exec (CHR ''o'', CHR ''.'') st = Some (JObj [] # st)" by (simp add: exec_def)
  then show ?case using execs_object [of fs "[]" st] 7 by force
qed (simp_all add: exec_def)

text \<open>No instruction of a value is the end mark or carries a line feed.\<close>

definition proper :: "instr \<Rightarrow> bool" where
  "proper i \<longleftrightarrow> fst i \<notin> {CHR ''.'', line_feed} \<and> snd i \<noteq> line_feed"

lemma line_feed_eq: "line_feed = CHR 0x0A"
  by code_simp

lemma proper_instrs: "list_all proper (instrs v)"
  by (induction v rule: instrs.induct)
    (auto simp: list_all_iff proper_def escape_def line_feed_eq, fastforce+)

lemma decode_text_flat:
  "list_all proper is \<Longrightarrow> decode_text (flat is @ rest) st = Option.bind (execs is st) (decode_text rest)"
  by (induction "is" arbitrary: st rule: flat.induct) (auto simp: proper_def split: bind_splits)

lemma decode_text_short:
  assumes "list_all proper is" and "strict_prefix t (flat (is @ [(CHR ''.'', CHR ''.'')]))"
  shows "decode_text t st = None"
  using assms
proof (induction "is" arbitrary: t st rule: flat.induct)
  case 1
  then show ?case by (auto simp: strict_prefix_def prefix_Cons)
next
  case (2 op arg "is")
  from 2(3) consider "t = []" | "t = [op]" | u where "t = op # arg # u" "strict_prefix u (flat (is @ [(CHR ''.'', CHR ''.'')]))"
    by (auto simp: strict_prefix_def prefix_Cons)
  then show ?case
    using 2(1,2) by cases (auto simp: proper_def split: bind_splits)
qed

lemma flat_append: "flat (is @ js) = flat is @ flat js"
  by (induction "is" rule: flat.induct) simp_all

lemma line_feed_flat: "list_all proper is \<Longrightarrow> line_feed \<notin> set (flat is)"
  by (induction "is" rule: flat.induct) (auto simp: proper_def)

lemma line_feed_sample_print: "line_feed \<notin> set (sample_print v)"
  using line_feed_flat [OF proper_instrs] by (simp add: sample_print_def flat_append line_feed_eq)

lemma newline_in: "newline \<in> set (as_bytes t) \<longleftrightarrow> line_feed \<in> set t"
  by (metis (no_types, lifting) as_bytes_def imageE image_eqI line_feed_def list.set_map
      char_of_byte_of_char byte_of_char_of_byte)

lemma sample_parse_eq: "line_feed \<notin> set t \<Longrightarrow> sample_parse t = decode_text t []"
proof -
  assume "line_feed \<notin> set t"
  then have "dropWhile (\<lambda>c. c = line_feed) (rev t) = rev t" by (cases t rule: rev_cases) auto
  then show ?thesis by (simp add: sample_parse_def)
qed

lemma sample_parse_print: "sample_parse (sample_print v) = Some v"
  using decode_text_flat [OF proper_instrs, of v "''..''" "[]"]
  by (simp add: sample_parse_eq [OF line_feed_sample_print]) (simp add: sample_print_def flat_append execs_instrs)

lemma sample_parse_short: "strict_prefix t (sample_print v) \<Longrightarrow> sample_parse t = None"
proof -
  assume t: "strict_prefix t (sample_print v)"
  then have "line_feed \<notin> set t"
    using line_feed_sample_print [of v] set_mono_prefix by (fastforce simp: strict_prefix_def)
  with decode_text_short [OF proper_instrs, of t v] t show ?thesis
    by (simp add: sample_parse_eq sample_print_def)
qed

lemma sample_serde_documented: "serde_documented no_seqs sample_serde sample_print sample_parse"
  unfolding serde_documented_def
proof (intro conjI allI impI)
  show "newline \<notin> set (as_bytes (sample_print (JObj fs)))" for fs
    by (simp add: newline_in line_feed_sample_print)
  show "to_string sample_serde r = Inr (sample_print (response_value r))" for r
    by (simp add: sample_serde_def)
  show "from_str sample_serde (sample_print (JObj fs)) = Inr r \<longleftrightarrow> request_of_value no_seqs (JObj fs) = Some r" for fs r
    by (simp add: sample_serde_def sample_parse_print split: option.split)
  show "\<exists>gs. sample_parse (sample_print (JObj fs)) = Some (JObj gs) \<and> map_of gs = map_of fs \<and> distinct (map fst gs)"
    if "response_value r = JObj fs" for fs r
  proof -
    obtain gs where "response_value r = JObj gs" "plain_object gs" by (rule response_object)
    with that have "plain_object fs" by simp
    then show ?thesis by (simp add: sample_parse_print numeral_eq_Suc)
  qed
  show "sample_parse t = None" and "from_str sample_serde t \<noteq> Inr r" if "strict_prefix t (sample_print (JObj fs))" for t fs r
    using sample_parse_short [OF that] by (simp_all add: sample_serde_def)
  show "sample_parse (t @ [line_feed]) = sample_parse t" for t by (simp add: sample_parse_def)
qed

section \<open>Witness\<close>

theorem json_roundtrip_witness:
  "from_str sample_serde (sample_print (request_value (ClientRequest.Ping 7))) = Inr (ClientRequest.Ping 7)
   \<and> from_str sample_serde (sample_print
        (JObj [(''note'', JNull), (''id'', JInt 7), (''type'', JStr ''ping'')])) = Inr (ClientRequest.Ping 7)
   \<and> (\<exists>text. to_string sample_serde (DaemonResponse.SendAck True None) = Inr text
        \<and> Option.bind (sample_parse text) (response_of_value no_seqs) = Some (DaemonResponse.SendAck True None))"
proof -
  have m: "map_of [(''type'', JStr ''ping''), (''id'', JInt 7)]
      \<subseteq>\<^sub>m map_of [(''note'', JNull), (''id'', JInt 7), (''type'', JStr ''ping'')]"
    by (auto simp: map_le_def)
  have p: "plain_object [(''note'', JNull), (''id'', JInt 7), (''type'', JStr ''ping'')]"
    by (simp add: numeral_eq_Suc)
  show ?thesis by (rule json_roundtrip [OF sample_serde_documented _ _ m p]) (simp_all add: tagged_def)
qed

end
