(* ===== verification/Tcp_Jsonl.thy ===== *)
theory Tcp_Jsonl
  imports Json_Session
begin

text \<open>
  The JSON-lines session over TCP, \<open>src/infra/transport_tcp/tcp_jsonl.rs\<close>. The reader is a
  function of what \<open>next_line\<close> returns; the output is a byte stream, one line per response.
\<close>

section \<open>Helpers\<close>

definition should_send_frame :: "string set \<Rightarrow> frame_event \<Rightarrow> bool" where
  "should_send_frame subscribed ev \<longleftrightarrow> ev_iface ev \<in> subscribed"

definition update_subscription_set :: "string set \<Rightarrow> string list \<Rightarrow> string set" where
  "update_subscription_set subscribed ifaces = foldl (\<lambda>set iface. insert iface set) {} ifaces"

definition clear_subscription_set :: "string set \<Rightarrow> string set" where
  "clear_subscription_set subscribed = {}"

definition bytes_to_hex_lower :: "bytes \<Rightarrow> string" where
  "bytes_to_hex_lower bs =
     (let out = foldl (\<lambda>out b. (out @ [LUT ! unat (drop_bit 4 b)]) @ [LUT ! unat (b AND 0x0F)]) [] bs
      in case from_utf8 out of None \<Rightarrow> '''' | Some s \<Rightarrow> s)"

definition frame_event_to_json_response :: "frame_event \<Rightarrow> DaemonResponse" where
  "frame_event_to_json_response ev =
     DaemonResponse.Frame (ev_ts_ms ev) (ev_iface ev)
       (case ev_dir ev of Rx \<Rightarrow> ''rx'' | Tx \<Rightarrow> ''tx'') (ev_id ev) (ev_is_fd ev)
       (bytes_to_hex_lower (ev_data ev))"

section \<open>State\<close>

datatype session_error = ClientHelloTimeout | ReadError | ParseClientHello string

datatype phase = Handshake | Running | Finished "(session_error, unit) result"

record tcp_jsonl = "(string set, DaemonResponse, u8) session" +
  phase :: phase

definition hello_ack :: DaemonResponse where
  "hello_ack = DaemonResponse.HelloAck ''1.0'' [''tcp'', ''jsonl'', ''binary''] ''can-bridge-daemon''"

text \<open>The session when the first line is awaited: the writer is running and \<open>HelloAck\<close> was sent to it.\<close>

definition session_start :: tcp_jsonl where
  "session_start = enqueue hello_ack
     \<lparr>subs = {}, outgoing = [], sender_alive = True, writer_alive = True, wire = [], phase = Handshake\<rparr>"

definition finish :: "(session_error, unit) result \<Rightarrow> tcp_jsonl \<Rightarrow> tcp_jsonl" where
  "finish r s = drop_sender (s\<lparr>phase := Finished r\<rparr>)"

section \<open>Reader\<close>

fun dispatch :: "'w ports \<Rightarrow> ClientRequest \<Rightarrow> tcp_jsonl \<times> 'w bridge \<Rightarrow> tcp_jsonl \<times> 'w bridge" where
  "dispatch ports (ClientRequest.Subscribe ifaces filters) (s, d) =
     (enqueue (DaemonResponse.Subscribed ifaces)
        (s\<lparr>subs := update_subscription_set (subs s) ifaces\<rparr>), d)"
| "dispatch ports ClientRequest.Unsubscribe (s, d) =
     (enqueue DaemonResponse.Unsubscribed (s\<lparr>subs := clear_subscription_set (subs s)\<rparr>), d)"
| "dispatch ports (ClientRequest.ClientHello client protocol) (s, d) =
     (enqueue (DaemonResponse.Error ''client_hello already completed'') s, d)"
| "dispatch ports other (s, d) = (let (response, d') = handle ports other d in (enqueue response s, d'))"

text \<open>
  What the reader waits for: a line, the end of the input, a read error (which includes a line that
  is not UTF-8), or the handshake timeout.
\<close>

datatype line_input = Line string | LinesEnd | LineError | HelloTimeout

definition handshake_step :: "json \<Rightarrow> (string \<Rightarrow> string) \<Rightarrow> line_input \<Rightarrow> tcp_jsonl \<Rightarrow> tcp_jsonl" where
  "handshake_step json dbg_str input s =
     (case input of
        HelloTimeout \<Rightarrow> finish (Inl ClientHelloTimeout) s
      | LineError \<Rightarrow> finish (Inl ReadError) s
      | LinesEnd \<Rightarrow> finish (Inr ()) s
      | Line first_line \<Rightarrow>
          (case from_str json first_line of
             Inl e \<Rightarrow> finish (Inl (ParseClientHello e)) s
           | Inr handshake \<Rightarrow>
               (case handshake of
                  ClientRequest.ClientHello client protocol \<Rightarrow> s\<lparr>phase := Running\<rparr>
                | other \<Rightarrow>
                    finish (Inr ())
                      (enqueue (DaemonResponse.Error
                         (''expected client_hello, got '' @ debug_request dbg_str other)) s))))"

definition serve_line :: "'w ports \<Rightarrow> json \<Rightarrow> string \<Rightarrow> tcp_jsonl \<times> 'w bridge \<Rightarrow> tcp_jsonl \<times> 'w bridge" where
  "serve_line ports json raw sd =
     (case from_str json raw of
        Inl e \<Rightarrow> (let (s, d) = sd in (enqueue (DaemonResponse.Error (''invalid json: '' @ e)) s, d))
      | Inr request \<Rightarrow> dispatch ports request sd)"

definition running_step :: "'w ports \<Rightarrow> json \<Rightarrow> line_input \<Rightarrow> tcp_jsonl \<times> 'w bridge \<Rightarrow> tcp_jsonl \<times> 'w bridge" where
  "running_step ports json input sd =
     (let (s, d) = sd in
      case input of
        HelloTimeout \<Rightarrow> (s, d)
      | LineError \<Rightarrow> (finish (Inl ReadError) s, d)
      | LinesEnd \<Rightarrow> (finish (Inr ()) s, d)
      | Line line \<Rightarrow>
          (let raw = trim line in if raw = [] then (s, d) else serve_line ports json raw (s, d)))"

definition reader_step :: "'w ports \<Rightarrow> json \<Rightarrow> (string \<Rightarrow> string) \<Rightarrow> line_input \<Rightarrow> tcp_jsonl \<times> 'w bridge
    \<Rightarrow> tcp_jsonl \<times> 'w bridge" where
  "reader_step ports json dbg_str input sd =
     (let (s, d) = sd in
      case phase s of
        Handshake \<Rightarrow> (handshake_step json dbg_str input s, d)
      | Running \<Rightarrow> running_step ports json input (s, d)
      | Finished r \<Rightarrow> (s, d))"

section \<open>Writer\<close>

text \<open>The text and the line feed go out in two writes; \<open>IoFail n\<close> says after how many bytes the first
  failing one stopped.\<close>

definition write_response :: "json \<Rightarrow> io \<Rightarrow> DaemonResponse \<Rightarrow> tcp_jsonl \<Rightarrow> tcp_jsonl" where
  "write_response json io response s =
     (case to_string json response of
        Inl e \<Rightarrow> stop_writer s
      | Inr line \<Rightarrow> write_out io (as_bytes line @ [newline]) s)"

definition writer_step :: "json \<Rightarrow> writer_input \<Rightarrow> tcp_jsonl \<Rightarrow> tcp_jsonl" where
  "writer_step json input s =
     (if \<not> writer_alive s then s
      else case input of
        Recv io \<Rightarrow>
          (case outgoing s of
             response # rest \<Rightarrow> write_response json io response (s\<lparr>outgoing := rest\<rparr>)
           | [] \<Rightarrow> if sender_alive s then s else stop_writer s)
      | BusEvent frame_event io \<Rightarrow>
          if should_send_frame (subs s) frame_event
          then write_response json io (frame_event_to_json_response frame_event) s
          else s
      | BusLagged dropped \<Rightarrow> s
      | BusClosed \<Rightarrow> stop_writer s)"

section \<open>Runs\<close>

text \<open>The reachable states, with the lines read.\<close>

fun lines_read :: "phase \<Rightarrow> line_input \<Rightarrow> string list" where
  "lines_read Handshake (Line l) = [l]"
| "lines_read Running (Line l) = [l]"
| "lines_read _ _ = []"

inductive reach :: "'w ports \<Rightarrow> json \<Rightarrow> (string \<Rightarrow> string) \<Rightarrow> string list \<Rightarrow> tcp_jsonl \<Rightarrow> 'w bridge \<Rightarrow> bool"
  for ports json dbg_str where
  start: "reach ports json dbg_str [] session_start d"
| reader: "reach ports json dbg_str ls s d \<Longrightarrow> reader_step ports json dbg_str input (s, d) = (s', d')
    \<Longrightarrow> reach ports json dbg_str (ls @ lines_read (phase s) input) s' d'"
| writer: "reach ports json dbg_str ls s d \<Longrightarrow> reach ports json dbg_str ls (writer_step json input s) d"
| others: "reach ports json dbg_str ls s d \<Longrightarrow> reach ports json dbg_str ls s d'"

section \<open>Lines and their answers\<close>

text \<open>The lines that count: blank ones are skipped.\<close>

definition commands :: "string list \<Rightarrow> string list" where
  "commands ls = filter (\<lambda>raw. raw \<noteq> []) (map trim ls)"

definition line_reply :: "'w ports \<Rightarrow> json \<Rightarrow> string \<Rightarrow> DaemonResponse \<Rightarrow> bool" where
  "line_reply ports json raw r \<longleftrightarrow>
     (case from_str json raw of
        Inl e \<Rightarrow> r = DaemonResponse.Error (''invalid json: '' @ e)
      | Inr request \<Rightarrow> json_reply ports request r)"

definition line_op :: "json \<Rightarrow> string \<Rightarrow> string list sub_op option" where
  "line_op json raw =
     (case from_str json raw of
        Inr (ClientRequest.Subscribe ifaces filters) \<Rightarrow> Some (Sub ifaces)
      | Inr ClientRequest.Unsubscribe \<Rightarrow> Some Unsub
      | _ \<Rightarrow> None)"

text \<open>Whatever filters the client sent, the interface alone decides.\<close>

definition iface_passes :: "string list \<Rightarrow> frame_event \<Rightarrow> bool" where
  "iface_passes ifaces ev \<longleftrightarrow> ev_iface ev \<in> set ifaces"

definition line_of :: "json \<Rightarrow> DaemonResponse \<Rightarrow> bytes option" where
  "line_of json r = (case to_string json r of Inl e \<Rightarrow> None | Inr line \<Rightarrow> Some (as_bytes line @ [newline]))"

lemma jsonl_update_eq [simp]: "update_subscription_set g ifaces = set ifaces"
proof -
  have "foldl (\<lambda>set iface. insert iface set) g ifaces = g \<union> set ifaces" for g
    by (induction ifaces arbitrary: g) auto
  then show ?thesis by (simp add: update_subscription_set_def)
qed

lemma jsonl_clear_eq [simp]: "clear_subscription_set g = {}"
  by (simp add: clear_subscription_set_def)

lemma jsonl_hex_eq [simp]: "bytes_to_hex_lower bs = hex_lower bs"
  by (simp add: bytes_to_hex_lower_def hex_lower_def)

lemma serve_line_replies:
  "\<exists>r d'. line_reply ports json raw r \<and> serve_line ports json raw (s, d) =
     (enqueue r (s\<lparr>subs := apply_op update_subscription_set clear_subscription_set (line_op json raw) (subs s)\<rparr>), d')"
proof (cases "from_str json raw")
  case (Inr request)
  have "(let (response, d') = handle ports request d in (enqueue response s, d'))
      = (enqueue (fst (handle ports request d)) s, snd (handle ports request d))"
    by (simp add: case_prod_beta)
  with Inr show ?thesis
    by (cases request) (auto simp: serve_line_def line_reply_def line_op_def apply_op_def simp del: handle.simps)
qed (simp add: serve_line_def line_reply_def line_op_def apply_op_def)

lemma jsonl_writer_step_spec:
  "writer_step json input s =
     writer_spec False (line_of json) should_send_frame frame_event_to_json_response input s"
  by (auto simp: writer_step_def writer_spec_def write_response_def emit_def line_of_def
      split: writer_input.split list.split sum.split)

interpretation jsonl: streaming_session "writer_step json" False "line_of json" should_send_frame
  frame_event_to_json_response update_subscription_set clear_subscription_set iface_passes "{}"
  "serve_line ports json" "line_reply ports json" "line_op json"
  for ports :: "'w ports" and json
  by unfold_locales (rule serve_line_replies | simp add: jsonl_writer_step_spec should_send_frame_def iface_passes_def)+

section \<open>What a reader step does to output and bridge\<close>

lemma serve_line_effect:
  assumes "serve_line ports json raw (s, d) = (s', d')"
  shows "only_sends json_answer s s' \<and> serviced ports d d'"
proof (cases "from_str json raw")
  case (Inl e)
  with assms show ?thesis by (auto simp: serve_line_def sends_simps json_answer_def)
next
  case (Inr request)
  have "only_sends json_answer s (enqueue (fst (handle ports request d)) s)"
    using handle_json_answer by (metis only_sends_enqueue only_sends_refl prod.collapse)
  with assms Inr show ?thesis
    by (cases request) (auto simp: serve_line_def sends_simps json_answer_def serviced_def case_prod_beta
        simp del: handle.simps)
qed

lemma jsonl_reader_effect:
  assumes "reader_step ports json dbg_str input (s, d) = (s', d')"
  shows "only_sends json_answer s s' \<and> serviced ports d d'"
proof (cases "phase s")
  case Handshake
  with assms show ?thesis
    by (auto simp: reader_step_def handshake_step_def finish_def sends_simps json_answer_def
        split: line_input.splits sum.splits ClientRequest.splits)
next
  case Running
  with assms serve_line_effect [of ports json _ s d s' d'] show ?thesis
    by (auto simp: reader_step_def running_step_def finish_def sends_simps Let_def
        split: line_input.splits if_splits)
qed (use assms in \<open>simp add: reader_step_def\<close>)

section \<open>Invariant of a session\<close>

abbreviation jsonl_served :: "'w ports \<Rightarrow> json \<Rightarrow> DaemonResponse list \<Rightarrow> string list \<Rightarrow> tcp_jsonl \<Rightarrow> bool" where
  "jsonl_served ports json \<equiv> served (line_of json) frame_event_to_json_response (line_reply ports json)
     (line_op json) iface_passes (apply_op update_subscription_set clear_subscription_set) {}"

abbreviation jsonl_answered :: "'w ports \<Rightarrow> json \<Rightarrow> DaemonResponse list \<Rightarrow> string list \<Rightarrow> tcp_jsonl \<Rightarrow> bool" where
  "jsonl_answered ports json \<equiv> answered (line_of json) frame_event_to_json_response (line_reply ports json)
     (line_op json) iface_passes should_send_frame"

definition greeted :: "json \<Rightarrow> string \<Rightarrow> bool" where
  "greeted json first \<longleftrightarrow> (\<exists>client protocol. from_str json first = Inr (ClientRequest.ClientHello client protocol))"

definition jsonl_running :: "'w ports \<Rightarrow> json \<Rightarrow> string list \<Rightarrow> tcp_jsonl \<Rightarrow> bool" where
  "jsonl_running ports json ls s \<longleftrightarrow>
     ls \<noteq> [] \<and> greeted json (hd ls) \<and> jsonl_served ports json [hello_ack] (commands (tl ls)) s"

definition jsonl_failed :: "'w ports \<Rightarrow> json \<Rightarrow> (string \<Rightarrow> string) \<Rightarrow> string list
    \<Rightarrow> (session_error, unit) result \<Rightarrow> tcp_jsonl \<Rightarrow> bool" where
  "jsonl_failed ports json dbg_str ls r s \<longleftrightarrow>
     (ls = [] \<and> jsonl_served ports json [hello_ack] [] s)
     \<or> (\<exists>first e. ls = [first] \<and> from_str json first = Inl e \<and> r = Inl (ParseClientHello e)
          \<and> jsonl_served ports json [hello_ack] [] s)
     \<or> (\<exists>first request. ls = [first] \<and> from_str json first = Inr request \<and> \<not> greeted json first \<and> r = Inr ()
          \<and> jsonl_served ports json [hello_ack, DaemonResponse.Error
               (''expected client_hello, got '' @ debug_request dbg_str request)] [] s)"

definition jsonl_inv :: "'w ports \<Rightarrow> json \<Rightarrow> (string \<Rightarrow> string) \<Rightarrow> string list \<Rightarrow> tcp_jsonl \<Rightarrow> bool" where
  "jsonl_inv ports json dbg_str ls s \<longleftrightarrow>
     (case phase s of
        Handshake \<Rightarrow> ls = [] \<and> jsonl_served ports json [hello_ack] [] s
      | Running \<Rightarrow> jsonl_running ports json ls s
      | Finished r \<Rightarrow> \<not> sender_alive s \<and> (jsonl_running ports json ls s \<or> jsonl_failed ports json dbg_str ls r s))"

lemma jsonl_served_fields [simp]:
  "jsonl_served ports json pre ls (s\<lparr>phase := ph\<rparr>) = jsonl_served ports json pre ls s"
  "jsonl_served ports json pre ls (finish r s) = jsonl_served ports json pre ls s"
  by (rule served_cong; simp add: finish_def drop_sender_def)+

lemma jsonl_progress_fields [simp]:
  "jsonl_running ports json ls (s\<lparr>phase := ph\<rparr>) = jsonl_running ports json ls s"
  "jsonl_running ports json ls (finish r s) = jsonl_running ports json ls s"
  "jsonl_failed ports json dbg_str ls r (finish r' s) = jsonl_failed ports json dbg_str ls r s"
  by (simp_all add: jsonl_running_def jsonl_failed_def)

lemma jsonl_finish_fields [simp]: "phase (finish r s) = Finished r" "sender_alive (finish r s) = False"
  by (simp_all add: finish_def drop_sender_def)

lemma jsonl_writer_step_fields [simp]:
  "phase (writer_step json input s) = phase s" "sender_alive (writer_step json input s) = sender_alive s"
  by (auto simp: writer_step_def write_response_def session_op_defs
      split: writer_input.split list.split sum.split io.split)

lemma jsonl_progress_writer:
  "jsonl_running ports json ls s \<Longrightarrow> jsonl_running ports json ls (writer_step json input s)"
  "jsonl_failed ports json dbg_str ls r s \<Longrightarrow> jsonl_failed ports json dbg_str ls r (writer_step json input s)"
  unfolding jsonl_running_def jsonl_failed_def by (blast intro: jsonl.served_wstep)+

lemma jsonl_inv_start: "jsonl_inv ports json dbg_str [] session_start"
proof -
  have "jsonl_served ports json ([] @ [hello_ack]) [] session_start"
    unfolding session_start_def by (intro served_pre served_start) simp_all
  then show ?thesis by (simp add: jsonl_inv_def session_start_def enqueue_def)
qed

lemma jsonl_inv_writer:
  "jsonl_inv ports json dbg_str ls s \<Longrightarrow> jsonl_inv ports json dbg_str ls (writer_step json input s)"
  by (auto simp: jsonl_inv_def intro: jsonl_progress_writer jsonl.served_wstep split: phase.splits)

lemma jsonl_inv_handshake:
  assumes "jsonl_inv ports json dbg_str ls s" and "phase s = Handshake"
  shows "jsonl_inv ports json dbg_str (ls @ lines_read Handshake input) (handshake_step json dbg_str input s)"
proof (cases input)
  case (Line first)
  have ls: "ls = []" and v: "jsonl_served ports json [hello_ack] [] s"
    using assms by (simp_all add: jsonl_inv_def)
  show ?thesis
  proof (cases "from_str json first")
    case (Inl e)
    with Line ls v show ?thesis by (simp add: handshake_step_def jsonl_inv_def jsonl_failed_def)
  next
    case (Inr request)
    show ?thesis
    proof (cases "greeted json first")
      case True
      with Line Inr ls v show ?thesis
        by (auto simp: handshake_step_def jsonl_inv_def jsonl_running_def greeted_def commands_def)
    next
      case False
      with Inr Line have "handshake_step json dbg_str input s = finish (Inr ()) (enqueue (DaemonResponse.Error
          (''expected client_hello, got '' @ debug_request dbg_str request)) s)"
        by (cases request) (auto simp: handshake_step_def greeted_def)
      with False Inr Line ls served_pre [OF v] show ?thesis by (simp add: jsonl_inv_def jsonl_failed_def)
    qed
  qed
qed (use assms in \<open>simp_all add: handshake_step_def jsonl_inv_def jsonl_failed_def\<close>)

lemma serve_line_phase: "serve_line ports json raw (s, d) = (s', d') \<Longrightarrow> phase s' = phase s"
  using serve_line_replies [of ports json raw s d] by (auto simp: enqueue_def)

lemma jsonl_inv_running:
  assumes "jsonl_inv ports json dbg_str ls s" and "phase s = Running"
    and "running_step ports json input (s, d) = (s', d')"
  shows "jsonl_inv ports json dbg_str (ls @ lines_read Running input) s'"
proof (cases input)
  case (Line l)
  have run: "jsonl_running ports json ls s" using assms(1,2) by (simp add: jsonl_inv_def)
  show ?thesis
  proof (cases "trim l = []")
    case True
    with Line run assms(2,3) show ?thesis
      by (auto simp: running_step_def jsonl_inv_def jsonl_running_def commands_def)
  next
    case False
    with Line assms(3) have v: "serve_line ports json (trim l) (s, d) = (s', d')" by (simp add: running_step_def)
    have "jsonl_served ports json [hello_ack] (commands (tl ls) @ [trim l]) s'"
      using run jsonl.served_dispatch [OF _ v] by (simp add: jsonl_running_def)
    with Line False run serve_line_phase [OF v] assms(2) show ?thesis
      by (simp add: jsonl_inv_def jsonl_running_def commands_def)
  qed
qed (use assms in \<open>auto simp: running_step_def jsonl_inv_def\<close>)

lemma jsonl_reach_inv: "reach ports json dbg_str ls s d \<Longrightarrow> jsonl_inv ports json dbg_str ls s"
proof (induction rule: reach.induct)
  case (reader ls s d input s' d')
  show ?case
  proof (cases "phase s")
    case Handshake
    with reader jsonl_inv_handshake [OF reader.IH Handshake] show ?thesis by (auto simp: reader_step_def)
  next
    case Running
    with reader jsonl_inv_running [OF reader.IH Running] show ?thesis by (auto simp: reader_step_def)
  qed (use reader in \<open>auto simp: reader_step_def\<close>)
qed (auto intro: jsonl_inv_start jsonl_inv_writer)

section \<open>Properties\<close>

text \<open>C22: In every reachable state of a running JSON-lines session over TCP, the first line was a
  \<open>client_hello\<close>, and \<open>HelloAck\<close> and one reply per later non-blank line, in line order, were
  written or are queued: an error for a line that is not a request, otherwise the answer that request
  calls for. Frames are forwarded only for interfaces an earlier \<open>subscribe\<close> named, now exactly for
  those of the last one, whatever filters it carried.\<close>

theorem tcp_jsonl_answers_in_order:
  assumes "reach ports json dbg_str ls s d" and "phase s = Running"
  shows "\<exists>first rest. ls = first # rest \<and> greeted json first
    \<and> jsonl_answered ports json [hello_ack] (commands rest) s"
proof -
  have "jsonl_running ports json ls s" using jsonl_reach_inv [OF assms(1)] assms(2) by (simp add: jsonl_inv_def)
  then show ?thesis
    by (intro exI [of _ "hd ls"] exI [of _ "tl ls"]) (auto simp: jsonl_running_def dest!: jsonl.served_answered)
qed

text \<open>C23: How a JSON-lines session over TCP ends without a greeting: nothing was read and only \<open>HelloAck\<close> was
  said; or the first line was no request, which is the session's error; or it was another request, which
  is not served and is answered by one error. A session that was greeted served its lines in order.\<close>

theorem tcp_jsonl_outcomes:
  assumes "reach ports json dbg_str ls s d" and "phase s = Finished r"
  shows "\<not> sender_alive s \<and>
    ((\<exists>first rest. ls = first # rest \<and> greeted json first \<and> jsonl_answered ports json [hello_ack] (commands rest) s)
     \<or> (ls = [] \<and> jsonl_answered ports json [hello_ack] [] s)
     \<or> (\<exists>first e. ls = [first] \<and> from_str json first = Inl e \<and> r = Inl (ParseClientHello e)
          \<and> jsonl_answered ports json [hello_ack] [] s)
     \<or> (\<exists>first request. ls = [first] \<and> from_str json first = Inr request \<and> \<not> greeted json first \<and> r = Inr ()
          \<and> jsonl_answered ports json [hello_ack, DaemonResponse.Error
               (''expected client_hello, got '' @ debug_request dbg_str request)] [] s))"
proof -
  have inv: "jsonl_inv ports json dbg_str ls s" by (rule jsonl_reach_inv [OF assms(1)])
  then have dead: "\<not> sender_alive s" using assms(2) by (simp add: jsonl_inv_def)
  consider (running) "jsonl_running ports json ls s"
    | (silent) "ls = []" "jsonl_served ports json [hello_ack] [] s"
    | (no_request) first e where "ls = [first]" "from_str json first = Inl e" "r = Inl (ParseClientHello e)"
        "jsonl_served ports json [hello_ack] [] s"
    | (refused) first request where "ls = [first]" "from_str json first = Inr request" "\<not> greeted json first"
        "r = Inr ()" "jsonl_served ports json [hello_ack, DaemonResponse.Error
             (''expected client_hello, got '' @ debug_request dbg_str request)] [] s"
    using inv assms(2) by (auto simp: jsonl_inv_def jsonl_failed_def)
  then show ?thesis
  proof cases
    case running
    then have "ls = hd ls # tl ls" and "greeted json (hd ls)"
      and v: "jsonl_served ports json [hello_ack] (commands (tl ls)) s" by (simp_all add: jsonl_running_def)
    with dead jsonl.served_answered [OF v] show ?thesis by blast
  next
    case silent
    with dead jsonl.served_answered [OF silent(2)] show ?thesis by simp
  next
    case no_request
    with dead jsonl.served_answered [OF no_request(4)] show ?thesis by simp
  next
    case refused
    with dead jsonl.served_answered [OF refused(5)] show ?thesis by simp
  qed
qed

section \<open>Lines written\<close>

text \<open>
  With a JSON printer that behaves as documented, the output is one line per response: cutting it at
  line feeds gives back the printed texts.
\<close>

lemma jsonl_lines:
  assumes "json_documented json"
  shows "split_lines (concat (map (\<lambda>r. the (line_of json r)) rs))
    = (map (\<lambda>r. as_bytes (projr (to_string json r))) rs, [])"
proof -
  let ?text = "\<lambda>r. as_bytes (projr (to_string json r))"
  have t: "the (line_of json r) = ?text r @ [newline] \<and> newline \<notin> set (?text r)" for r
  proof -
    obtain line where "to_string json r = Inr line" "newline \<notin> set (as_bytes line)"
      using assms unfolding json_documented_def by blast
    then show ?thesis by (simp add: line_of_def)
  qed
  then have "concat (map (\<lambda>r. the (line_of json r)) rs) = concat (map (\<lambda>l. l @ [newline]) (map ?text rs))"
    by (simp add: comp_def)
  moreover have "\<forall>l\<in>set (map ?text rs). newline \<notin> set l" using t by auto
  ultimately show ?thesis using split_lines_concat by metis
qed

lemma line_of_documented: "json_documented json \<Longrightarrow> line_of json r \<noteq> None"
  unfolding json_documented_def line_of_def by (metis old.sum.simps(6) option.distinct(1))

section \<open>Witnesses\<close>

lemma jsonl_reach_sample:
  "reach quiet_ports sample_json id [''hello''] (session_start\<lparr>phase := Running\<rparr>) quiet_bridge"
proof -
  have "reader_step quiet_ports sample_json id (Line ''hello'') (session_start, quiet_bridge)
      = (session_start\<lparr>phase := Running\<rparr>, quiet_bridge)"
    by (simp add: reader_step_def handshake_step_def session_start_def sample_json_def enqueue_def)
  from reach.reader [OF reach.start this] show ?thesis by (simp add: session_start_def enqueue_def)
qed

theorem tcp_jsonl_answers_in_order_witness:
  "greeted sample_json ''hello''
   \<and> jsonl_answered quiet_ports sample_json [hello_ack] [] (session_start\<lparr>phase := Running\<rparr>)"
  using tcp_jsonl_answers_in_order [OF jsonl_reach_sample] by (simp add: commands_def)

theorem tcp_jsonl_outcomes_witness:
  "reach quiet_ports sample_json id [] (finish (Inr ()) session_start) quiet_bridge
   \<and> jsonl_answered quiet_ports sample_json [hello_ack] [] (finish (Inr ()) session_start)"
proof -
  have "reader_step quiet_ports sample_json id LinesEnd (session_start, quiet_bridge)
      = (finish (Inr ()) session_start, quiet_bridge)"
    by (simp add: reader_step_def handshake_step_def session_start_def enqueue_def)
  from reach.reader [OF reach.start this]
  have r: "reach quiet_ports sample_json id [] (finish (Inr ()) session_start) quiet_bridge"
    by (simp add: session_start_def enqueue_def)
  from tcp_jsonl_outcomes [OF r, of "Inr ()"] r show ?thesis by simp
qed

end
