(* ===== verification/Ws_Message.thy ===== *)
theory Ws_Message
  imports Frame
begin

text \<open>
  The messages of a WebSocket and what \<open>next()\<close> on its receiving half gives, as the two WebSocket
  transports (\<open>src/infra/transport_ws\<close>) see them.
\<close>

datatype message = Text string | Binary bytes | Ping bytes | Pong bytes | Close

text \<open>
  \<open>Next\<close>: a message. \<open>NextError\<close>: a receive error. \<open>NextEnd\<close>: the stream ended.
  \<open>HelloTimeout\<close>: the three seconds of the handshake passed. \<open>Proceed\<close>: a step of the reader that
  needs nothing from outside.
\<close>

datatype ws_input = Next message | NextError | NextEnd | HelloTimeout | Proceed

end
