(* ===== verification/Ws_Jsonl.thy ===== *)
theory Ws_Jsonl
  imports Json_Session Ws_Message
begin

text \<open>
  The JSON session over a WebSocket, \<open>src/infra/transport_ws/ws_jsonl.rs\<close>, the one transport with
  capture filters. The subscribed interfaces and the filters are behind two locks, so replacing a
  subscription takes two steps of the reader and testing a frame takes two steps of the writer; the
  model keeps them apart, in \<open>phase\<close> and \<open>pending\<close>.
\<close>

section \<open>Filters\<close>

text \<open>The early returns of \<open>frame_matches_filter\<close>, in the source's order.\<close>

definition frame_matches_filter :: "frame_event \<Rightarrow> frame_filter \<Rightarrow> bool" where
  "frame_matches_filter ev flt =
     (if (case flt_iface flt of Some iface \<Rightarrow> ev_iface ev \<noteq> iface | None \<Rightarrow> False) then False
      else if (case flt_is_fd flt of Some is_fd \<Rightarrow> ev_is_fd ev \<noteq> is_fd | None \<Rightarrow> False) then False
      else if (case flt_min_len flt of Some min_len \<Rightarrow> length (ev_data ev) < min_len | None \<Rightarrow> False) then False
      else if (case flt_max_len flt of Some max_len \<Rightarrow> max_len < length (ev_data ev) | None \<Rightarrow> False) then False
      else if (case flt_id flt of
                 Some expected_id \<Rightarrow>
                   let mask = (case flt_id_mask flt of Some m \<Rightarrow> m | None \<Rightarrow> 0xFFFFFFFF)
                   in ev_id ev AND mask \<noteq> expected_id AND mask
               | None \<Rightarrow> False) then False
      else True)"

text \<open>The two halves of \<open>should_send_frame\<close>, each under its own lock, and the whole.\<close>

definition iface_check :: "string set \<Rightarrow> frame_event \<Rightarrow> bool" where
  "iface_check subscribed ev \<longleftrightarrow> ev_iface ev \<in> subscribed"

definition filters_check :: "frame_filter list \<Rightarrow> frame_event \<Rightarrow> bool" where
  "filters_check filters ev \<longleftrightarrow> filters = [] \<or> list_ex (frame_matches_filter ev) filters"

definition should_send_frame :: "string set \<times> frame_filter list \<Rightarrow> frame_event \<Rightarrow> bool" where
  "should_send_frame g ev = (if \<not> iface_check (fst g) ev then False else filters_check (snd g) ev)"

definition hex_lower :: "bytes \<Rightarrow> string" where
  "hex_lower bytes =
     (let out = foldl (\<lambda>out b. (out @ [LUT ! unat (drop_bit 4 b)]) @ [LUT ! unat (b AND 0x0F)]) [] bytes
      in case from_utf8 out of None \<Rightarrow> '''' | Some s \<Rightarrow> s)"

lemma jws_hex_lower_eq [simp]: "hex_lower bs = Frame.hex_lower bs"
  by (simp add: hex_lower_def Frame.hex_lower_def)

definition frame_event_to_response :: "frame_event \<Rightarrow> DaemonResponse" where
  "frame_event_to_response ev =
     DaemonResponse.Frame (ev_ts_ms ev) (ev_iface ev)
       (case ev_dir ev of Rx \<Rightarrow> ''rx'' | Tx \<Rightarrow> ''tx'') (ev_id ev) (ev_is_fd ev) (hex_lower (ev_data ev))"

section \<open>State\<close>

text \<open>
  \<open>Subscribing\<close>, \<open>Unsubscribing\<close>: the interfaces are replaced or cleared, the filters not yet.
\<close>

datatype phase = Handshake | Running | Subscribing "string list" "frame_filter list" | Unsubscribing | Finished

text \<open>\<open>pending\<close>: the frame that passed the interface check and is to be tested against the filters.\<close>

record ws_jsonl = "(string set \<times> frame_filter list, DaemonResponse, message) session" +
  pending :: "frame_event option"
  phase :: phase

definition hello_ack :: DaemonResponse where
  "hello_ack = DaemonResponse.HelloAck ''0.9'' [''ws'', ''json'', ''stream''] ''can-bridge-daemon''"

text \<open>The session when the first message is awaited: the writer is running and \<open>HelloAck\<close> was sent to it.\<close>

definition session_start :: ws_jsonl where
  "session_start = enqueue hello_ack
     \<lparr>subs = ({}, []), outgoing = [], sender_alive = True, writer_alive = True, wire = [],
      pending = None, phase = Handshake\<rparr>"

definition finish :: "ws_jsonl \<Rightarrow> ws_jsonl" where
  "finish s = drop_sender (s\<lparr>phase := Finished\<rparr>)"

section \<open>Reader\<close>

definition first_request :: "json \<Rightarrow> (string \<Rightarrow> string) \<Rightarrow> string \<Rightarrow> ws_jsonl \<Rightarrow> ws_jsonl" where
  "first_request json dbg_str raw s =
     (case from_str json raw of
        Inl e \<Rightarrow> finish (enqueue (DaemonResponse.Error (''invalid client_hello json: '' @ e)) s)
      | Inr req \<Rightarrow>
          (case req of
             ClientRequest.ClientHello client protocol \<Rightarrow> s\<lparr>phase := Running\<rparr>
           | other \<Rightarrow>
               finish (enqueue (DaemonResponse.Error
                 (''expected client_hello, got: '' @ debug_request dbg_str other)) s)))"

definition handshake_step :: "json \<Rightarrow> (string \<Rightarrow> string) \<Rightarrow> ws_input \<Rightarrow> ws_jsonl \<Rightarrow> ws_jsonl" where
  "handshake_step json dbg_str input s =
     (case input of
        Proceed \<Rightarrow> s
      | HelloTimeout \<Rightarrow> finish s
      | NextEnd \<Rightarrow> finish s
      | NextError \<Rightarrow> finish s
      | Next (Text raw) \<Rightarrow> first_request json dbg_str raw s
      | Next (Binary b) \<Rightarrow>
          (case from_utf8 b of None \<Rightarrow> finish s | Some raw \<Rightarrow> first_request json dbg_str raw s)
      | Next Close \<Rightarrow> finish s
      | Next _ \<Rightarrow> finish s)"

fun dispatch :: "'w ports \<Rightarrow> ClientRequest \<Rightarrow> ws_jsonl \<times> 'w bridge \<Rightarrow> ws_jsonl \<times> 'w bridge" where
  "dispatch ports (ClientRequest.Subscribe ifaces filters) (s, d) =
     (s\<lparr>subs := (foldl (\<lambda>set i. insert i set) {} ifaces, snd (subs s)), phase := Subscribing ifaces filters\<rparr>, d)"
| "dispatch ports ClientRequest.Unsubscribe (s, d) =
     (s\<lparr>subs := ({}, snd (subs s)), phase := Unsubscribing\<rparr>, d)"
| "dispatch ports req (s, d) = (let (resp, d') = handle ports req d in (enqueue resp s, d'))"

definition serve_raw :: "'w ports \<Rightarrow> json \<Rightarrow> string \<Rightarrow> ws_jsonl \<times> 'w bridge \<Rightarrow> ws_jsonl \<times> 'w bridge" where
  "serve_raw ports json raw sd =
     (case from_str json raw of
        Inl e \<Rightarrow> (let (s, d) = sd in (enqueue (DaemonResponse.Error (''invalid json request: '' @ e)) s, d))
      | Inr req \<Rightarrow> dispatch ports req sd)"

definition running_step :: "'w ports \<Rightarrow> json \<Rightarrow> ws_input \<Rightarrow> ws_jsonl \<times> 'w bridge \<Rightarrow> ws_jsonl \<times> 'w bridge" where
  "running_step ports json input sd =
     (let (s, d) = sd in
      case input of
        Proceed \<Rightarrow> (s, d)
      | HelloTimeout \<Rightarrow> (s, d)
      | NextEnd \<Rightarrow> (finish s, d)
      | NextError \<Rightarrow> (finish s, d)
      | Next (Text raw) \<Rightarrow> serve_raw ports json raw (s, d)
      | Next (Binary b) \<Rightarrow>
          (case from_utf8 b of
             None \<Rightarrow> (enqueue (DaemonResponse.Error ''binary message must be utf-8 json'') s, d)
           | Some raw \<Rightarrow> serve_raw ports json raw (s, d))
      | Next Close \<Rightarrow> (finish s, d)
      | Next (message.Ping _) \<Rightarrow> (s, d)
      | Next (message.Pong _) \<Rightarrow> (s, d))"

definition reader_step :: "'w ports \<Rightarrow> json \<Rightarrow> (string \<Rightarrow> string) \<Rightarrow> ws_input \<Rightarrow> ws_jsonl \<times> 'w bridge
    \<Rightarrow> ws_jsonl \<times> 'w bridge" where
  "reader_step ports json dbg_str input sd =
     (let (s, d) = sd in
      case phase s of
        Handshake \<Rightarrow> (handshake_step json dbg_str input s, d)
      | Running \<Rightarrow> running_step ports json input (s, d)
      | Subscribing ifaces filters \<Rightarrow>
          if input = Proceed
          then (enqueue (DaemonResponse.Subscribed ifaces)
                  (s\<lparr>subs := (fst (subs s), filters), phase := Running\<rparr>), d)
          else (s, d)
      | Unsubscribing \<Rightarrow>
          if input = Proceed
          then (enqueue DaemonResponse.Unsubscribed (s\<lparr>subs := (fst (subs s), []), phase := Running\<rparr>), d)
          else (s, d)
      | Finished \<Rightarrow> (s, d))"

section \<open>Writer\<close>

text \<open>A completed receive, or the test of the frame at hand against the filters.\<close>

datatype writer_event = Input writer_input | CheckFilters io

definition write_response :: "json \<Rightarrow> io \<Rightarrow> DaemonResponse \<Rightarrow> ws_jsonl \<Rightarrow> ws_jsonl" where
  "write_response json io resp s =
     (case to_string json resp of
        Inl e \<Rightarrow> s
      | Inr t \<Rightarrow> write_out io [Text t] s)"

definition writer_step :: "json \<Rightarrow> writer_event \<Rightarrow> ws_jsonl \<Rightarrow> ws_jsonl" where
  "writer_step json event s =
     (if \<not> writer_alive s then s
      else case pending s of
        Some ev \<Rightarrow>
          (case event of
             CheckFilters io \<Rightarrow>
               (let s = s\<lparr>pending := None\<rparr>
                in if filters_check (snd (subs s)) ev
                   then write_response json io (frame_event_to_response ev) s else s)
           | Input _ \<Rightarrow> s)
      | None \<Rightarrow>
          (case event of
             CheckFilters io \<Rightarrow> s
           | Input (Recv io) \<Rightarrow>
               (case outgoing s of
                  resp # rest \<Rightarrow> write_response json io resp (s\<lparr>outgoing := rest\<rparr>)
                | [] \<Rightarrow> if sender_alive s then s else stop_writer s)
           | Input (BusEvent ev io) \<Rightarrow> if iface_check (fst (subs s)) ev then s\<lparr>pending := Some ev\<rparr> else s
           | Input (BusLagged n) \<Rightarrow> s
           | Input BusClosed \<Rightarrow> stop_writer s))"

section \<open>Runs\<close>

text \<open>The reachable states, with the messages received.\<close>

fun messages_received :: "phase \<Rightarrow> ws_input \<Rightarrow> message list" where
  "messages_received Handshake (Next msg) = [msg]"
| "messages_received Running (Next msg) = [msg]"
| "messages_received _ _ = []"

inductive reach :: "'w ports \<Rightarrow> json \<Rightarrow> (string \<Rightarrow> string) \<Rightarrow> message list \<Rightarrow> ws_jsonl \<Rightarrow> 'w bridge \<Rightarrow> bool"
  for ports json dbg_str where
  start: "reach ports json dbg_str [] session_start d"
| reader: "reach ports json dbg_str ms s d \<Longrightarrow> reader_step ports json dbg_str input (s, d) = (s', d')
    \<Longrightarrow> reach ports json dbg_str (ms @ messages_received (phase s) input) s' d'"
| writer: "reach ports json dbg_str ms s d \<Longrightarrow> reach ports json dbg_str ms (writer_step json event s) d"
| others: "reach ports json dbg_str ms s d \<Longrightarrow> reach ports json dbg_str ms s d'"

section \<open>What a step does to output and bridge\<close>

lemma pending_enqueue [simp]: "pending (enqueue r s) = pending s"
  by (simp add: enqueue_def)

lemma pending_write_response: "pending (write_response json io r s) = pending s"
  by (simp add: write_response_def write_out_def stop_writer_def split: sum.split io.split)

lemma serve_raw_effect:
  assumes "serve_raw ports json raw (s, d) = (s', d')"
  shows "only_sends json_answer s s' \<and> serviced ports d d' \<and> pending s' = pending s"
proof (cases "from_str json raw")
  case (Inl e)
  with assms show ?thesis by (auto simp: serve_raw_def sends_simps json_answer_def)
next
  case (Inr request)
  have "only_sends json_answer s (enqueue (fst (handle ports request d)) s)"
    using handle_json_answer by (metis only_sends_enqueue only_sends_refl prod.collapse)
  with assms Inr show ?thesis
    by (cases request) (auto simp: serve_raw_def sends_simps serviced_def case_prod_beta
        simp del: handle.simps)
qed

lemma jws_reader_effect:
  assumes "reader_step ports json dbg_str input (s, d) = (s', d')"
  shows "only_sends json_answer s s' \<and> serviced ports d d' \<and> pending s' = pending s"
proof (cases "phase s")
  case Handshake
  with assms show ?thesis
    by (auto simp: reader_step_def handshake_step_def first_request_def finish_def sends_simps
        json_answer_def split: ws_input.splits message.splits option.splits sum.splits ClientRequest.splits)
next
  case Running
  with assms serve_raw_effect [of ports json _ s d s' d'] show ?thesis
    by (auto simp: reader_step_def running_step_def finish_def sends_simps json_answer_def
        split: ws_input.splits message.splits option.splits)
qed (use assms in \<open>auto simp: reader_step_def sends_simps json_answer_def split: if_splits\<close>)

section \<open>Filter semantics\<close>

lemma frame_matches_filter_iff:
  "frame_matches_filter ev flt \<longleftrightarrow>
     (case flt_iface flt of None \<Rightarrow> True | Some iface \<Rightarrow> ev_iface ev = iface)
     \<and> (case flt_is_fd flt of None \<Rightarrow> True | Some is_fd \<Rightarrow> ev_is_fd ev = is_fd)
     \<and> (case flt_min_len flt of None \<Rightarrow> True | Some n \<Rightarrow> n \<le> length (ev_data ev))
     \<and> (case flt_max_len flt of None \<Rightarrow> True | Some n \<Rightarrow> length (ev_data ev) \<le> n)
     \<and> (case flt_id flt of None \<Rightarrow> True
        | Some i \<Rightarrow> (case flt_id_mask flt of None \<Rightarrow> ev_id ev = i | Some m \<Rightarrow> ev_id ev AND m = i AND m))"
proof -
  have "x AND 0xFFFFFFFF = x" for x :: u32
  proof -
    have "(0xFFFFFFFF :: u32) = - 1" by simp
    then show ?thesis by (simp only: and_minus_numerals and.right_neutral)
  qed
  then show ?thesis
    unfolding frame_matches_filter_def by (auto simp: Let_def not_less split: option.splits)
qed

lemma masked_eq_iff: "x AND m = (y :: u32) AND m \<longleftrightarrow> (\<forall>n < 32. bit m n \<longrightarrow> bit x n = bit y n)"
  by (subst bit_eq_iff) (auto simp: bit_and_iff dest: bit_imp_le_length)

section \<open>Messages and their answers\<close>

datatype item = Command string | NotUtf8

fun item_of :: "message \<Rightarrow> item list" where
  "item_of (Text raw) = [Command raw]"
| "item_of (Binary b) = (case from_utf8 b of None \<Rightarrow> [NotUtf8] | Some raw \<Rightarrow> [Command raw])"
| "item_of _ = []"

definition items_of :: "message list \<Rightarrow> item list" where
  "items_of ms = concat (map item_of ms)"

fun item_reply :: "'w ports \<Rightarrow> json \<Rightarrow> item \<Rightarrow> DaemonResponse \<Rightarrow> bool" where
  "item_reply ports json NotUtf8 r \<longleftrightarrow> r = DaemonResponse.Error ''binary message must be utf-8 json''"
| "item_reply ports json (Command raw) r \<longleftrightarrow>
     (case from_str json raw of
        Inl e \<Rightarrow> r = DaemonResponse.Error (''invalid json request: '' @ e)
      | Inr request \<Rightarrow> json_reply ports request r)"

fun item_op :: "json \<Rightarrow> item \<Rightarrow> (string list \<times> frame_filter list) sub_op option" where
  "item_op json NotUtf8 = None"
| "item_op json (Command raw) =
     (case from_str json raw of
        Inr (ClientRequest.Subscribe ifaces filters) \<Rightarrow> Some (Sub (ifaces, filters))
      | Inr ClientRequest.Unsubscribe \<Rightarrow> Some Unsub
      | _ \<Rightarrow> None)"

definition text_of :: "json \<Rightarrow> DaemonResponse \<Rightarrow> message list option" where
  "text_of json r = (case to_string json r of Inl e \<Rightarrow> None | Inr t \<Rightarrow> Some [Text t])"

text \<open>
  The output as frames of \<open>fs\<close>, in order; a frame that waits for its filter test is among them but not
  yet written.
\<close>

definition jws_written :: "json \<Rightarrow> frame_event list \<Rightarrow> ws_jsonl \<Rightarrow> bool" where
  "jws_written json fs s \<longleftrightarrow> (\<exists>gs. written (text_of json) frame_event_to_response json_answer gs s
     \<and> subseq (gs @ (case pending s of None \<Rightarrow> [] | Some ev \<Rightarrow> [ev])) fs)"

fun event_frames :: "writer_event \<Rightarrow> frame_event list" where
  "event_frames (Input input) = bus_frames input"
| "event_frames (CheckFilters io) = []"

lemma jws_writtenI:
  "written (text_of json) frame_event_to_response json_answer gs s
    \<Longrightarrow> subseq (gs @ (case pending s of None \<Rightarrow> [] | Some ev \<Rightarrow> [ev])) fs \<Longrightarrow> jws_written json fs s"
  unfolding jws_written_def by blast

lemma written_write_response:
  assumes "written (text_of json) frame_event_to_response json_answer gs s" and "writer_alive s"
    and "case e of Reply r \<Rightarrow> json_answer r \<and> hs = gs | Forwarded ev \<Rightarrow> hs = gs @ [ev]"
    and "wire t = wire s" and "writer_alive t" and "list_all json_answer (outgoing t)"
  shows "written (text_of json) frame_event_to_response json_answer hs
    (write_response json io (entry_resp frame_event_to_response e) t)"
proof (cases "to_string json (entry_resp frame_event_to_response e)")
  case (Inl err)
  have "subseq gs hs" using assms(3) by (auto split: entry.splits)
  from written_mono [OF assms(1) this] Inl assms(2) assms(4-6) show ?thesis
    by (simp add: write_response_def written_def)
next
  case (Inr line)
  with written_write [OF assms(1,2) _ assms(3) assms(4) assms(5) assms(6), of "[Text line]" io] show ?thesis
    by (simp add: write_response_def text_of_def)
qed

lemma jws_written_writer:
  assumes "jws_written json fs s"
  shows "jws_written json (fs @ event_frames event) (writer_step json event s)"
proof -
  obtain gs where w: "written (text_of json) frame_event_to_response json_answer gs s"
    and sub: "subseq (gs @ (case pending s of None \<Rightarrow> [] | Some ev \<Rightarrow> [ev])) fs"
    using assms by (auto simp: jws_written_def)
  have o: "list_all json_answer (outgoing s)" using w by (simp add: written_def)
  have later: "subseq xs fs \<Longrightarrow> subseq xs (fs @ event_frames event)" for xs by (rule subseq_rev_drop_many)
  note same = jws_writtenI [OF w later [OF sub]]
  note cut = subseq_order.trans [OF subseq_append_left sub]
  show ?thesis
  proof (cases "writer_alive s")
    case True
    show ?thesis
    proof (cases "pending s")
      case (Some ev)
      have "jws_written json (fs @ event_frames event) (write_response json io (frame_event_to_response ev) (s\<lparr>pending := None\<rparr>))"
        for io
        using written_write_response [OF w True, where e = "Forwarded ev" and hs = "gs @ [ev]" and t = "s\<lparr>pending := None\<rparr>" and io = io] o True sub later Some
        by (intro jws_writtenI [of _ "gs @ [ev]"]) (auto simp: pending_write_response)
      moreover have "jws_written json (fs @ event_frames event) (s\<lparr>pending := None\<rparr>)"
        using w later [OF cut] by (intro jws_writtenI [of _ gs]) (simp_all add: written_def)
      ultimately show ?thesis
        using True Some same by (auto simp: writer_step_def Let_def split: writer_event.split)
    next
      case None
      have reply: "jws_written json (fs @ event_frames event) (write_response json io r (s\<lparr>outgoing := rs\<rparr>))"
        if "outgoing s = r # rs" for r rs io
        using written_write_response [OF w True, where e = "Reply r" and hs = gs and t = "s\<lparr>outgoing := rs\<rparr>" and io = io] o True later sub None that
        by (intro jws_writtenI [of _ gs]) (auto simp: pending_write_response)
      have stop: "jws_written json (fs @ event_frames event) (stop_writer s)"
        using written_stop [OF w] later [OF sub] None by (intro jws_writtenI [of _ gs]) (simp_all add: stop_writer_def)
      have hold: "jws_written json (fs @ [ev]) (s\<lparr>pending := Some ev\<rparr>)" for ev
        using w sub None by (intro jws_writtenI [of _ gs]) (simp_all add: written_def list_emb_append_mono)
      from True None same reply stop hold show ?thesis
        by (auto simp: writer_step_def split: writer_event.split writer_input.split list.split)
    qed
  qed (use same in \<open>simp add: writer_step_def\<close>)
qed

text \<open>A subscription taken as one: what it replaces the state by, and the frames it asks for.\<close>

definition subscribe_state :: "string set \<times> frame_filter list \<Rightarrow> string list \<times> frame_filter list
    \<Rightarrow> string set \<times> frame_filter list" where
  "subscribe_state g u = (set (fst u), snd u)"

definition unsubscribe_state :: "string set \<times> frame_filter list \<Rightarrow> string set \<times> frame_filter list" where
  "unsubscribe_state g = ({}, [])"

definition sub_passes :: "string list \<times> frame_filter list \<Rightarrow> frame_event \<Rightarrow> bool" where
  "sub_passes u ev \<longleftrightarrow> ev_iface ev \<in> set (fst u)
     \<and> (snd u = [] \<or> (\<exists>flt\<in>set (snd u). frame_matches_filter ev flt))"

lemma filters_check_iff: "filters_check filters ev \<longleftrightarrow> filters = [] \<or> (\<exists>flt\<in>set filters. frame_matches_filter ev flt)"
  by (simp add: filters_check_def list_ex_iff)

interpretation filtered: subscription_gate subscribe_state unsubscribe_state should_send_frame sub_passes "({}, [])"
  by unfold_locales (auto simp: subscribe_state_def unsubscribe_state_def should_send_frame_def sub_passes_def iface_check_def filters_check_iff)

abbreviation subs_after :: "json \<Rightarrow> item list \<Rightarrow> string set \<times> frame_filter list" where
  "subs_after json items \<equiv> fold (apply_op subscribe_state unsubscribe_state) (map (item_op json) items) ({}, [])"

text \<open>
  With two locks a subscription is replaced in two moments, and a frame is tested in two: against the
  interfaces of one moment and against the filters of the same or a later one. \<open>moments\<close> lists the
  states of both locks that the items lead through, the half-replaced ones included.
\<close>

fun sub_moments :: "(string list \<times> frame_filter list) sub_op option \<Rightarrow> string set \<times> frame_filter list
    \<Rightarrow> (string set \<times> frame_filter list) list" where
  "sub_moments None g = []"
| "sub_moments (Some (Sub u)) g = [(set (fst u), snd g), (set (fst u), snd u)]"
| "sub_moments (Some Unsub) g = [({}, snd g), ({}, [])]"

definition moments :: "json \<Rightarrow> item list \<Rightarrow> (string set \<times> frame_filter list) list" where
  "moments json items = foldl (\<lambda>ms q. ms @ sub_moments (item_op json q) (last ms)) [({}, [])] items"

text \<open>The moment at which the first \<open>k\<close> items are answered.\<close>

definition answered_moment :: "json \<Rightarrow> nat \<Rightarrow> item list \<Rightarrow> nat" where
  "answered_moment json k items = length (moments json (take k items)) - 1"

text \<open>The frames that pass both tests, at moments not before the given one.\<close>

definition admitted_since :: "(string set \<times> frame_filter list) list \<Rightarrow> nat \<Rightarrow> frame_event set" where
  "admitted_since ms n = {ev. \<exists>p q. n \<le> p \<and> p \<le> q \<and> q < length ms \<and> ev_iface ev \<in> fst (ms ! p)
     \<and> (snd (ms ! q) = [] \<or> (\<exists>flt\<in>set (snd (ms ! q)). frame_matches_filter ev flt))}"

text \<open>
  Every frame among the entries written was admitted at moments not before the last reply that
  precedes it in the output, of which the first \<open>n\<close> answer no item.
\<close>

definition timely :: "json \<Rightarrow> nat \<Rightarrow> item list \<Rightarrow> (string set \<times> frame_filter list) list \<Rightarrow> DaemonResponse entry list \<Rightarrow> bool" where
  "timely json n items ms log \<longleftrightarrow> (\<forall>xs ev ys. log = xs @ Forwarded ev # ys \<longrightarrow>
     ev \<in> admitted_since ms (answered_moment json (length (replies xs) - n) items))"

lemma moments_Nil [simp]: "moments json [] = [({}, [])]"
  by (simp add: moments_def)

lemma moments_snoc:
  "moments json (items @ [q]) = moments json items @ sub_moments (item_op json q) (last (moments json items))"
  by (simp add: moments_def)

lemma moments_append: "\<exists>later. moments json (items @ others) = moments json items @ later"
proof (induction others rule: rev_induct)
  case (snoc q others)
  then show ?case using moments_snoc [of json "items @ others" q] by auto
qed simp

lemma moments_nonempty [simp]: "moments json items \<noteq> []"
  using moments_append [of json "[]" items] by auto

lemma last_moments: "last (moments json items) = subs_after json items"
proof (induction items rule: rev_induct)
  case (snoc q items)
  then show ?case
    by (cases "(item_op json q, last (moments json items))" rule: sub_moments.cases)
      (auto simp: moments_snoc apply_op_def subscribe_state_def unsubscribe_state_def)
qed simp

lemma answered_moment_less: "answered_moment json k items < length (moments json items)"
proof -
  obtain later where "moments json items = moments json (take k items) @ later"
    using moments_append [of json "take k items" "drop k items"] by auto
  then have "length (moments json (take k items)) \<le> length (moments json items)" by simp
  moreover have "0 < length (moments json (take k items))" by simp
  ultimately show ?thesis unfolding answered_moment_def by linarith
qed

lemma answered_moment_append: "k \<le> length items \<Longrightarrow> answered_moment json k (items @ others) = answered_moment json k items"
  by (simp add: answered_moment_def)

lemma answered_moment_Nil [simp]: "answered_moment json k [] = 0"
  by (simp add: answered_moment_def)

lemma admitted_sinceI:
  "n \<le> p \<Longrightarrow> p \<le> q \<Longrightarrow> q < length ms \<Longrightarrow> ev_iface ev \<in> fst (ms ! p) \<Longrightarrow> filters_check (snd (ms ! q)) ev
    \<Longrightarrow> ev \<in> admitted_since ms n"
  unfolding admitted_since_def filters_check_iff by blast

lemma admitted_since_append: "admitted_since ms n \<subseteq> admitted_since (ms @ later) n"
proof
  fix ev assume "ev \<in> admitted_since ms n"
  then obtain p q where "n \<le> p" "p \<le> q" "q < length ms" "ev_iface ev \<in> fst (ms ! p)" "filters_check (snd (ms ! q)) ev"
    by (auto simp: admitted_since_def filters_check_iff)
  then show "ev \<in> admitted_since (ms @ later) n"
    by (intro admitted_sinceI [of n p q]) (simp_all add: nth_append)
qed

lemma admitted_since_zero: "admitted_since ms n \<subseteq> admitted_since ms 0"
  unfolding admitted_since_def by blast

lemma admitted_start [simp]: "admitted_since [({}, [])] n = {}"
  by (auto simp: admitted_since_def)

lemma timely_Nil [simp]: "timely json n items ms []"
  by (simp add: timely_def)

lemma timely_mono: "timely json n items ms log \<Longrightarrow> timely json n items (ms @ later) log"
  unfolding timely_def using admitted_since_append by blast

lemma timely_snoc:
  assumes "timely json n items ms log"
    and "\<And>ev. e = Forwarded ev \<Longrightarrow> ev \<in> admitted_since ms (answered_moment json (length (replies log) - n) items)"
  shows "timely json n items ms (log @ [e])"
  unfolding timely_def
proof (intro allI impI)
  fix xs ev ys assume split: "log @ [e] = xs @ Forwarded ev # ys"
  show "ev \<in> admitted_since ms (answered_moment json (length (replies xs) - n) items)"
  proof (cases ys rule: rev_cases)
    case Nil
    with split assms(2) show ?thesis by simp
  next
    case (snoc ys' e')
    with split have "log = xs @ Forwarded ev # ys'" by simp
    with assms(1) show ?thesis by (simp add: timely_def)
  qed
qed

lemma timely_item:
  assumes "timely json n items ms log" and "length (replies log) \<le> n + length items"
  shows "timely json n (items @ others) ms log"
  unfolding timely_def
proof (intro allI impI)
  fix xs ev ys assume "log = xs @ Forwarded ev # ys"
  moreover from this assms(2) have "length (replies xs) - n \<le> length items" by simp
  ultimately show "ev \<in> admitted_since ms (answered_moment json (length (replies xs) - n) (items @ others))"
    using assms(1) by (simp add: timely_def answered_moment_append)
qed

section \<open>Invariant of a session\<close>

text \<open>
  \<open>told\<close>: after \<open>pre\<close> the items were answered, in order, and the locks went through the moments
  \<open>ms\<close>, which are those of the items and possibly the first half of another. The frame at hand passed the interface
  test at a moment not before the last reply written.
\<close>

definition told_with :: "'w ports \<Rightarrow> json \<Rightarrow> DaemonResponse list \<Rightarrow> item list \<Rightarrow> (string set \<times> frame_filter list) list
    \<Rightarrow> DaemonResponse list \<Rightarrow> DaemonResponse entry list \<Rightarrow> ws_jsonl \<Rightarrow> bool" where
  "told_with ports json pre items ms resps log s \<longleftrightarrow> list_all2 (item_reply ports json) items resps
     \<and> explains (text_of json) frame_event_to_response (admitted_since ms 0) (pre @ resps) log s
     \<and> timely json (length pre) items ms log
     \<and> (\<forall>ev. pending s = Some ev \<longrightarrow> (\<exists>p. answered_moment json (length (replies log) - length pre) items \<le> p
          \<and> p < length ms \<and> ev_iface ev \<in> fst (ms ! p)))
     \<and> (\<exists>later. ms = moments json items @ later) \<and> subs s = last ms"

definition told :: "'w ports \<Rightarrow> json \<Rightarrow> DaemonResponse list \<Rightarrow> item list \<Rightarrow> (string set \<times> frame_filter list) list
    \<Rightarrow> ws_jsonl \<Rightarrow> bool" where
  "told ports json pre items ms s \<longleftrightarrow> (\<exists>resps log. told_with ports json pre items ms resps log s)"

lemma toldI: "told_with ports json pre items ms resps log s \<Longrightarrow> told ports json pre items ms s"
  unfolding told_def by blast

lemma told_subs: "told ports json pre items ms s \<Longrightarrow> subs s = last ms \<and> ms \<noteq> []"
  by (auto simp: told_def told_with_def)

lemma explains_replies: "explains enc to_resp A E log s \<Longrightarrow> length (replies log) \<le> length E"
proof -
  assume "explains enc to_resp A E log s"
  then obtain rest where "filter (\<lambda>r. enc r \<noteq> None) E = replies log @ rest" by (auto simp: explains_def)
  then have "length (replies log) \<le> length (filter (\<lambda>r. enc r \<noteq> None) E)" by simp
  then show ?thesis using length_filter_le [of _ E] by (rule le_trans)
qed

lemma told_cong:
  assumes "wire s' = wire s" and "writer_alive s' = writer_alive s" and "outgoing s' = outgoing s"
    and "pending s' = pending s" and "subs s' = subs s"
  shows "told ports json pre items ms s' \<longleftrightarrow> told ports json pre items ms s"
  unfolding told_def told_with_def by (simp only: assms explains_cong [OF assms(1-3)])

text \<open>One of the locks changes hands.\<close>

lemma told_moment:
  assumes "told ports json pre items ms s"
  shows "told ports json pre items (ms @ [g]) (s\<lparr>subs := g\<rparr>)"
proof -
  obtain resps log where t: "told_with ports json pre items ms resps log s" using assms by (auto simp: told_def)
  then have "explains (text_of json) frame_event_to_response (admitted_since (ms @ [g]) 0) (pre @ resps) log s"
    unfolding told_with_def using explains_mono [OF _ admitted_since_append] by blast
  then have "explains (text_of json) frame_event_to_response (admitted_since (ms @ [g]) 0) (pre @ resps) log (s\<lparr>subs := g\<rparr>)"
    by (rule explains_cong [THEN iffD2, rotated 3]) simp_all
  moreover have "\<exists>p. answered_moment json (length (replies log) - length pre) items \<le> p
      \<and> p < length (ms @ [g]) \<and> ev_iface ev \<in> fst ((ms @ [g]) ! p)" if "pending s = Some ev" for ev
  proof -
    from t that obtain p where "answered_moment json (length (replies log) - length pre) items \<le> p" "p < length ms"
      "ev_iface ev \<in> fst (ms ! p)" by (auto simp: told_with_def)
    then show ?thesis by (intro exI [of _ p]) (simp add: nth_append)
  qed
  moreover have "timely json (length pre) items (ms @ [g]) log"
    using t by (intro timely_mono) (simp add: told_with_def)
  moreover have "\<exists>later. ms @ [g] = moments json items @ later" using t by (auto simp: told_with_def)
  ultimately have "told_with ports json pre items (ms @ [g]) resps log (s\<lparr>subs := g\<rparr>)"
    using t unfolding told_with_def by simp
  then show ?thesis by (rule toldI)
qed

lemma told_pre:
  assumes "told ports json pre [] ms s"
  shows "told ports json (pre @ [r]) [] ms (enqueue r s)"
proof -
  obtain log where t: "told_with ports json pre [] ms [] log s" using assms by (auto simp: told_def told_with_def)
  then have "explains (text_of json) frame_event_to_response (admitted_since ms 0) (pre @ [r]) log (enqueue r s)"
    unfolding told_with_def using explains_enqueue [of "text_of json"] by fastforce
  with t have "told_with ports json (pre @ [r]) [] ms [] log (enqueue r s)" by (simp add: told_with_def timely_def)
  then show ?thesis by (rule toldI)
qed

text \<open>An item is answered, once the locks are as it asks.\<close>

lemma told_reply:
  assumes "told ports json pre items ms s" and "item_reply ports json q r" and "ms = moments json (items @ [q])"
  shows "told ports json pre (items @ [q]) ms (enqueue r s)"
proof -
  obtain resps log where t: "told_with ports json pre items ms resps log s" using assms(1) by (auto simp: told_def)
  then have r: "list_all2 (item_reply ports json) items resps"
    and e: "explains (text_of json) frame_event_to_response (admitted_since ms 0) (pre @ resps) log s"
    and m: "timely json (length pre) items ms log"
    by (simp_all add: told_with_def)
  have len: "length (replies log) \<le> length pre + length items"
    using explains_replies [OF e] list_all2_lengthD [OF r] by simp
  then have "answered_moment json (length (replies log) - length pre) (items @ [q])
      = answered_moment json (length (replies log) - length pre) items"
    by (intro answered_moment_append) simp
  with t r assms(2,3) explains_enqueue [OF e, of r] timely_item [OF m len, of "[q]"]
  have "told_with ports json pre (items @ [q]) ms (resps @ [r]) log (enqueue r s)"
    by (simp add: told_with_def list_all2_appendI)
  then show ?thesis by (rule toldI)
qed

lemma write_response_emit: "write_response json io r s = emit True (text_of json) io r s"
  by (simp add: write_response_def emit_def text_of_def split: sum.split)

text \<open>The history after a step of the writer that adds at most the given entry.\<close>

lemma told_entry:
  assumes "told ports json pre items ms s" and "subs t = subs s" and "pending t = None"
    and "\<And>E log. explains (text_of json) frame_event_to_response (admitted_since ms 0) E log s
      \<Longrightarrow> \<exists>es\<in>{[], [e]}. explains (text_of json) frame_event_to_response (admitted_since ms 0) E (log @ es) t"
    and "\<And>ev n. e = Forwarded ev \<Longrightarrow> (\<forall>ev. pending s = Some ev \<longrightarrow> (\<exists>p. n \<le> p \<and> p < length ms \<and> ev_iface ev \<in> fst (ms ! p)))
      \<Longrightarrow> ev \<in> admitted_since ms n"
  shows "told ports json pre items ms t"
proof -
  obtain resps log where w: "told_with ports json pre items ms resps log s" using assms(1) by (auto simp: told_def)
  then have e: "explains (text_of json) frame_event_to_response (admitted_since ms 0) (pre @ resps) log s"
    and t: "timely json (length pre) items ms log"
    and p: "\<forall>ev. pending s = Some ev \<longrightarrow> (\<exists>p. answered_moment json (length (replies log) - length pre) items \<le> p
          \<and> p < length ms \<and> ev_iface ev \<in> fst (ms ! p))"
    by (simp_all add: told_with_def)
  from assms(4) [OF e] obtain es where es: "es \<in> {[], [e]}"
    and x: "explains (text_of json) frame_event_to_response (admitted_since ms 0) (pre @ resps) (log @ es) t" by blast
  have "timely json (length pre) items ms (log @ [e])" by (rule timely_snoc [OF t]) (rule assms(5) [OF _ p])
  with es t have "timely json (length pre) items ms (log @ es)" by auto
  with w x assms(2,3) have "told_with ports json pre items ms resps (log @ es) t" by (simp add: told_with_def)
  then show ?thesis by (rule toldI)
qed

lemma told_drop: "told ports json pre items ms s \<Longrightarrow> told ports json pre items ms (s\<lparr>pending := None\<rparr>)"
  unfolding told_def told_with_def using explains_cong [of "s\<lparr>pending := None\<rparr>" s] by auto

lemma told_stop: "told ports json pre items ms s \<Longrightarrow> told ports json pre items ms (stop_writer s)"
proof -
  have f: "subs (stop_writer s) = subs s" "pending (stop_writer s) = pending s" by (simp_all add: stop_writer_def)
  show "told ports json pre items ms s \<Longrightarrow> told ports json pre items ms (stop_writer s)"
    unfolding told_def told_with_def f using explains_stop by blast
qed

lemma told_hold:
  assumes "told ports json pre items ms s" and "iface_check (fst (subs s)) ev"
  shows "told ports json pre items ms (s\<lparr>pending := Some ev\<rparr>)"
proof -
  obtain resps log where t: "told_with ports json pre items ms resps log s" using assms(1) by (auto simp: told_def)
  then have e: "explains (text_of json) frame_event_to_response (admitted_since ms 0) (pre @ resps) log (s\<lparr>pending := Some ev\<rparr>)"
    using explains_cong [of "s\<lparr>pending := Some ev\<rparr>" s] by (simp add: told_with_def)
  obtain later where m: "ms = moments json items @ later" "subs s = last ms" using t by (auto simp: told_with_def)
  then have "ms \<noteq> []" "length (moments json items) \<le> length ms" by simp_all
  then have "answered_moment json (length (replies log) - length pre) items \<le> length ms - 1
      \<and> length ms - 1 < length ms \<and> ev_iface ev \<in> fst (ms ! (length ms - 1))"
    using answered_moment_less [of json "length (replies log) - length pre" items] assms(2) m(2)
    by (auto simp: last_conv_nth iface_check_def)
  with t e have "told_with ports json pre items ms resps log (s\<lparr>pending := Some ev\<rparr>)"
    unfolding told_with_def by auto
  then show ?thesis by (rule toldI)
qed

lemma told_test:
  assumes "told ports json pre items ms s" and "writer_alive s" and "pending s = Some ev"
    and "filters_check (snd (subs s)) ev"
  shows "told ports json pre items ms (write_response json io (frame_event_to_response ev) (s\<lparr>pending := None\<rparr>))"
proof (rule told_entry [OF assms(1), where e = "Forwarded ev"])
  have m: "ms \<noteq> []" "subs s = last ms" using told_subs [OF assms(1)] by simp_all
  show admitted: "x \<in> admitted_since ms n" if "Forwarded ev = Forwarded x"
      "\<forall>ev. pending s = Some ev \<longrightarrow> (\<exists>p. n \<le> p \<and> p < length ms \<and> ev_iface ev \<in> fst (ms ! p))" for x n
    using that m assms(3,4) by (auto simp: last_conv_nth intro!: admitted_sinceI [of n _ "length ms - 1"])
  have "ev \<in> admitted_since ms 0"
    using assms(1,3) by (intro admitted [OF refl]) (auto simp: told_def told_with_def)
  note frame = explains_emit_frame [OF _ _ this]
  show "\<exists>es\<in>{[], [Forwarded ev]}. explains (text_of json) frame_event_to_response (admitted_since ms 0) E (log @ es)
      (write_response json io (frame_event_to_response ev) (s\<lparr>pending := None\<rparr>))"
    if e: "explains (text_of json) frame_event_to_response (admitted_since ms 0) E log s" for E log
  proof -
    have "explains (text_of json) frame_event_to_response (admitted_since ms 0) E log (s\<lparr>pending := None\<rparr>)"
      using e by (rule explains_cong [THEN iffD2, rotated 3]) simp_all
    from frame [OF this] assms(2) show ?thesis by (simp add: write_response_emit)
  qed
qed (simp_all add: write_response_def write_out_def stop_writer_def split: sum.split io.split)

lemma told_writer:
  assumes "told ports json pre items ms s"
  shows "told ports json pre items ms (writer_step json event s)"
proof (cases "writer_alive s")
  case True
  show ?thesis
  proof (cases "pending s")
    case None
    have reply: "told ports json pre items ms (write_response json io r (s\<lparr>outgoing := rs\<rparr>))" if "outgoing s = r # rs" for r rs io
    proof (rule told_entry [OF assms, where e = "Reply r"])
      show "\<exists>es\<in>{[], [Reply r]}. explains (text_of json) frame_event_to_response (admitted_since ms 0) E (log @ es)
          (write_response json io r (s\<lparr>outgoing := rs\<rparr>))"
        if "explains (text_of json) frame_event_to_response (admitted_since ms 0) E log s" for E log
        using explains_emit_reply [OF that True \<open>outgoing s = r # rs\<close>] by (simp add: write_response_emit)
    qed (simp_all add: None write_response_def write_out_def stop_writer_def split: sum.split io.split)
    from True None assms reply told_stop [OF assms] told_hold [OF assms] show ?thesis
      by (auto simp: writer_step_def split: writer_event.split writer_input.split list.split)
  next
    case (Some ev)
    with True assms told_drop [OF assms] told_test [OF assms True Some] show ?thesis
      by (auto simp: writer_step_def Let_def split: writer_event.split)
  qed
qed (use assms in \<open>simp add: writer_step_def\<close>)

lemma writer_step_keeps [simp]:
  "phase (writer_step json event s) = phase s" "subs (writer_step json event s) = subs s"
  "sender_alive (writer_step json event s) = sender_alive s"
  by (auto simp: writer_step_def write_response_def session_op_defs Let_def
      split: writer_event.split writer_input.split list.split sum.split io.split option.split)

definition greeting :: "json \<Rightarrow> message \<Rightarrow> bool" where
  "greeting json m \<longleftrightarrow> (\<exists>raw client protocol. item_of m = [Command raw]
     \<and> from_str json raw = Inr (ClientRequest.ClientHello client protocol))"

definition conversed :: "'w ports \<Rightarrow> json \<Rightarrow> message list \<Rightarrow> ws_jsonl \<Rightarrow> bool" where
  "conversed ports json ms s \<longleftrightarrow> (\<exists>m rest. ms = m # rest \<and> greeting json m
     \<and> told ports json [hello_ack] (items_of rest) (moments json (items_of rest)) s)"

text \<open>The last message replaces the subscription; it is half done and not answered.\<close>

definition replacing :: "'w ports \<Rightarrow> json \<Rightarrow> message list \<Rightarrow> (string list \<times> frame_filter list) sub_op
    \<Rightarrow> DaemonResponse \<Rightarrow> ws_jsonl \<Rightarrow> bool" where
  "replacing ports json ms op r s \<longleftrightarrow> (\<exists>m rest items q. ms = m # rest \<and> greeting json m \<and> items_of rest = items @ [q]
     \<and> item_op json q = Some op \<and> item_reply ports json q r
     \<and> told ports json [hello_ack] items (butlast (moments json (items @ [q]))) s)"

definition not_greeted :: "'w ports \<Rightarrow> json \<Rightarrow> ws_jsonl \<Rightarrow> bool" where
  "not_greeted ports json s \<longleftrightarrow> told ports json [hello_ack] [] (moments json []) s
     \<or> (\<exists>e. told ports json [hello_ack, DaemonResponse.Error e] [] (moments json []) s)"

definition jws_inv :: "'w ports \<Rightarrow> json \<Rightarrow> message list \<Rightarrow> ws_jsonl \<Rightarrow> bool" where
  "jws_inv ports json ms s \<longleftrightarrow>
     (case phase s of
        Handshake \<Rightarrow> ms = [] \<and> told ports json [hello_ack] [] (moments json []) s
      | Running \<Rightarrow> conversed ports json ms s
      | Subscribing ifaces filters \<Rightarrow>
          replacing ports json ms (Sub (ifaces, filters)) (DaemonResponse.Subscribed ifaces) s
      | Unsubscribing \<Rightarrow> replacing ports json ms Unsub DaemonResponse.Unsubscribed s
      | Finished \<Rightarrow> \<not> sender_alive s
          \<and> (not_greeted ports json s \<and> length ms \<le> 1 \<and> (\<forall>m\<in>set ms. \<not> greeting json m)
             \<or> (\<exists>ms'. conversed ports json ms' s \<and> (ms = ms' \<or> ms = ms' @ [Close]))))"

lemmas jws_progress_defs = conversed_def replacing_def not_greeted_def

lemma told_fields [simp]:
  "told ports json pre items ms (s\<lparr>phase := ph\<rparr>) = told ports json pre items ms s"
  "told ports json pre items ms (finish s) = told ports json pre items ms s"
  by (rule told_cong; simp add: finish_def drop_sender_def)+

lemma jws_finish_fields [simp]: "phase (finish s) = Finished" "sender_alive (finish s) = False" "subs (finish s) = subs s"
  by (simp_all add: finish_def drop_sender_def)

lemma jws_enqueue_phase [simp]: "phase (enqueue r s) = phase s"
  by (simp add: enqueue_def)

lemma conversed_fields [simp]:
  "conversed ports json ms (s\<lparr>phase := ph\<rparr>) = conversed ports json ms s"
  "conversed ports json ms (finish s) = conversed ports json ms s"
  by (simp_all add: conversed_def)

lemma jws_progress_writer:
  "conversed ports json ms s \<Longrightarrow> conversed ports json ms (writer_step json event s)"
  "replacing ports json ms op r s \<Longrightarrow> replacing ports json ms op r (writer_step json event s)"
  "not_greeted ports json s \<Longrightarrow> not_greeted ports json (writer_step json event s)"
  unfolding jws_progress_defs by (blast intro: told_writer)+

lemma jws_inv_writer: "jws_inv ports json ms s \<Longrightarrow> jws_inv ports json ms (writer_step json event s)"
  by (fastforce simp: jws_inv_def intro: jws_progress_writer told_writer split: phase.splits)

lemma jws_inv_start: "jws_inv ports json [] session_start"
proof -
  have "told ports json [] [] (moments json []) (session_start\<lparr>outgoing := []\<rparr>)"
    by (auto simp: told_def told_with_def explains_def session_start_def enqueue_def intro!: exI [of _ "[]"])
  from told_pre [OF this, of hello_ack] have "told ports json [hello_ack] [] (moments json []) session_start"
    by (simp add: session_start_def enqueue_def)
  then show ?thesis by (simp add: jws_inv_def session_start_def enqueue_def)
qed

text \<open>One more answered item that leaves the subscription alone.\<close>

lemma conversed_item:
  assumes "conversed ports json ms s" and "item_of m = [q]" and "item_op json q = None" and "item_reply ports json q r"
  shows "conversed ports json (ms @ [m]) (enqueue r s)"
proof -
  obtain m0 rest where m: "ms = m0 # rest" "greeting json m0"
    and t: "told ports json [hello_ack] (items_of rest) (moments json (items_of rest)) s"
    using assms(1) by (auto simp: conversed_def)
  have i: "items_of (rest @ [m]) = items_of rest @ [q]" using assms(2) by (simp add: items_of_def)
  have "moments json (items_of rest) = moments json (items_of rest @ [q])" using assms(3) by (simp add: moments_snoc)
  from told_reply [OF t assms(4) this] this m i show ?thesis by (simp add: conversed_def)
qed

text \<open>Messages that carry nothing: pings and pongs.\<close>

lemma conversed_skip:
  assumes "conversed ports json ms s" and "item_of m = []"
  shows "conversed ports json (ms @ [m]) s"
proof -
  have "items_of (rest @ [m]) = items_of rest" for rest using assms(2) by (simp add: items_of_def)
  with assms(1) show ?thesis by (auto simp: conversed_def)
qed

text \<open>The two moments of replacing a subscription.\<close>

lemma moments_op:
  assumes "item_op json q = Some op"
    and "g = apply_op subscribe_state unsubscribe_state (Some op) ({}, [])"
  shows "moments json (items @ [q]) = moments json items @ [(fst g, snd (last (moments json items))), g]"
  using assms by (cases op) (simp_all add: moments_snoc apply_op_def subscribe_state_def unsubscribe_state_def)

lemma conversed_replacing:
  assumes "conversed ports json ms s" and "item_of m = [q]" and "item_op json q = Some op"
    and "item_reply ports json q r"
    and "ifaces = fst (apply_op subscribe_state unsubscribe_state (Some op) ({}, []))"
  shows "replacing ports json (ms @ [m]) op r (s\<lparr>subs := (ifaces, snd (subs s)), phase := ph\<rparr>)"
proof -
  obtain m0 rest where r: "ms = m0 # rest" "greeting json m0"
    and t: "told ports json [hello_ack] (items_of rest) (moments json (items_of rest)) s"
    using assms(1) by (auto simp: conversed_def)
  have i: "items_of (rest @ [m]) = items_of rest @ [q]" using assms(2) by (simp add: items_of_def)
  have "subs s = last (moments json (items_of rest))" using told_subs [OF t] by simp
  then have "butlast (moments json (items_of rest @ [q])) = moments json (items_of rest) @ [(ifaces, snd (subs s))]"
    using moments_op [OF assms(3) refl, of "items_of rest"] assms(5) by (simp add: butlast_append)
  with told_moment [OF t, of "(ifaces, snd (subs s))"] r i assms(3,4) show ?thesis
    unfolding replacing_def
    by (intro exI [of _ m0] exI [of _ "rest @ [m]"] exI [of _ "items_of rest"] exI [of _ q]) simp
qed

lemma replacing_conversed:
  assumes "replacing ports json ms op r s"
    and "filters = snd (apply_op subscribe_state unsubscribe_state (Some op) ({}, []))"
  shows "conversed ports json ms (enqueue r (s\<lparr>subs := (fst (subs s), filters), phase := ph\<rparr>))"
proof -
  obtain m rest items q where r: "ms = m # rest" "greeting json m" and i: "items_of rest = items @ [q]"
    and q: "item_op json q = Some op" "item_reply ports json q r"
    and t: "told ports json [hello_ack] items (butlast (moments json (items @ [q]))) s"
    using assms(1) by (auto simp: replacing_def)
  note ops = moments_op [OF q(1) refl, of items]
  have "subs s = last (butlast (moments json (items @ [q])))" using told_subs [OF t] by simp
  then have "butlast (moments json (items @ [q])) @ [(fst (subs s), filters)] = moments json (items @ [q])"
    using ops assms(2) by (simp add: butlast_append)
  with told_moment [OF t, of "(fst (subs s), filters)"]
  have "told ports json [hello_ack] items (moments json (items @ [q])) (s\<lparr>subs := (fst (subs s), filters), phase := ph\<rparr>)"
    by simp
  from told_reply [OF this q(2) refl] r i show ?thesis by (simp add: conversed_def)
qed

lemma foldl_insert: "foldl (\<lambda>set i. insert i set) A xs = A \<union> set xs"
  by (induction xs arbitrary: A) auto

lemma jws_inv_raw:
  assumes "conversed ports json ms s" and "phase s = Running" and "item_of m = [Command raw]"
    and "serve_raw ports json raw (s, d) = (s', d')"
  shows "jws_inv ports json (ms @ [m]) s'"
proof (cases "from_str json raw")
  case (Inl e)
  with assms(2,4) conversed_item [OF assms(1,3)] show ?thesis by (auto simp: serve_raw_def jws_inv_def)
next
  case (Inr request)
  show ?thesis
  proof (cases request)
    case (Subscribe ifaces filters)
    with Inr assms(4) conversed_replacing [OF assms(1,3), of "Sub (ifaces, filters)" "DaemonResponse.Subscribed ifaces"]
    show ?thesis by (auto simp: serve_raw_def jws_inv_def foldl_insert apply_op_def subscribe_state_def)
  next
    case Unsubscribe
    with Inr assms(4) conversed_replacing [OF assms(1,3), of Unsub DaemonResponse.Unsubscribed]
    show ?thesis by (auto simp: serve_raw_def jws_inv_def apply_op_def unsubscribe_state_def)
  qed (use Inr assms(2,4) conversed_item [OF assms(1,3)] in
      \<open>auto simp: serve_raw_def jws_inv_def case_prod_beta simp del: handle.simps\<close>,
      auto simp: serve_raw_def jws_inv_def)
qed

lemma jws_inv_running:
  assumes "jws_inv ports json ms s" and "phase s = Running"
    and "running_step ports json input (s, d) = (s', d')"
  shows "jws_inv ports json (ms @ messages_received Running input) s'"
proof -
  have c: "conversed ports json ms s" using assms(1,2) by (simp add: jws_inv_def)
  show ?thesis
  proof (cases input)
    case (Next m)
    show ?thesis
    proof (cases m)
      case (Text raw)
      with Next assms(3) jws_inv_raw [OF c assms(2), of m raw d s' d'] show ?thesis by (simp add: running_step_def)
    next
      case (Binary b)
      show ?thesis
      proof (cases "from_utf8 b")
        case None
        with Next Binary assms(2,3) conversed_item [OF c, of m NotUtf8] show ?thesis
          by (auto simp: running_step_def jws_inv_def)
      next
        case (Some raw)
        with Next Binary assms(3) jws_inv_raw [OF c assms(2), of m raw d s' d'] show ?thesis
          by (simp add: running_step_def)
      qed
    qed (use Next assms(2,3) c conversed_skip [OF c, of m] in \<open>auto simp: running_step_def jws_inv_def\<close>)
  qed (use c assms(2,3) in \<open>auto simp: running_step_def jws_inv_def\<close>)
qed

lemma jws_inv_first:
  assumes "jws_inv ports json [] s" and "phase s = Handshake" and "item_of m = [Command raw]"
  shows "jws_inv ports json [m] (first_request json dbg_str raw s)"
proof -
  have t: "told ports json [hello_ack] [] (moments json []) s"
    using assms(1,2) by (simp add: jws_inv_def)
  have e: "told ports json [hello_ack, DaemonResponse.Error x] [] (moments json []) (enqueue (DaemonResponse.Error x) s)" for x
    using told_pre [OF t, of "DaemonResponse.Error x"] by simp
  show ?thesis
  proof (cases "greeting json m")
    case True
    with assms(3) have "first_request json dbg_str raw s = s\<lparr>phase := Running\<rparr>"
      by (auto simp: greeting_def first_request_def)
    with True t show ?thesis by (simp add: jws_inv_def conversed_def items_of_def)
  next
    case False
    with assms(3) have "\<exists>x. first_request json dbg_str raw s = finish (enqueue (DaemonResponse.Error x) s)"
      by (fastforce simp: greeting_def first_request_def split: sum.split ClientRequest.split)
    then obtain x where "first_request json dbg_str raw s = finish (enqueue (DaemonResponse.Error x) s)" by blast
    with False e [of x] show ?thesis by (auto simp: jws_inv_def not_greeted_def)
  qed
qed

lemma jws_inv_handshake:
  assumes "jws_inv ports json ms s" and "phase s = Handshake"
  shows "jws_inv ports json (ms @ messages_received Handshake input) (handshake_step json dbg_str input s)"
proof -
  have ms: "ms = []" using assms by (simp add: jws_inv_def)
  have f: "jws_inv ports json [] (finish s)"
    using assms by (auto simp: jws_inv_def not_greeted_def)
  have n: "jws_inv ports json [m] (finish s)" if "\<not> greeting json m" for m
    using assms that by (auto simp: jws_inv_def not_greeted_def)
  show ?thesis
  proof (cases input)
    case (Next m)
    show ?thesis
    proof (cases m)
      case (Text raw)
      with Next ms jws_inv_first [OF assms(1) [unfolded ms] assms(2), of m raw] show ?thesis
        by (simp add: handshake_step_def)
    next
      case (Binary b)
      with Next ms n [of m] jws_inv_first [OF assms(1) [unfolded ms] assms(2), of m] show ?thesis
        by (cases "from_utf8 b") (auto simp: handshake_step_def greeting_def)
    qed (use Next ms n [of m] in \<open>simp_all add: handshake_step_def greeting_def\<close>)
  qed (use ms f assms in \<open>simp_all add: handshake_step_def\<close>)
qed

lemma jws_reach_inv: "reach ports json dbg_str ms s d \<Longrightarrow> jws_inv ports json ms s"
proof (induction rule: reach.induct)
  case (reader ms s d input s' d')
  show ?case
  proof (cases "phase s")
    case Handshake
    with reader jws_inv_handshake [OF reader.IH Handshake] show ?thesis by (auto simp: reader_step_def)
  next
    case Running
    with reader jws_inv_running [OF reader.IH Running] show ?thesis by (auto simp: reader_step_def)
  next
    case (Subscribing ifaces filters)
    have "replacing ports json ms (Sub (ifaces, filters)) (DaemonResponse.Subscribed ifaces) s"
      using reader.IH Subscribing by (simp add: jws_inv_def)
    from replacing_conversed [OF this] have "conversed ports json ms (enqueue (DaemonResponse.Subscribed ifaces)
        (s\<lparr>subs := (fst (subs s), filters), phase := Running\<rparr>))"
      by (simp add: apply_op_def subscribe_state_def)
    with reader Subscribing show ?thesis by (auto simp: reader_step_def jws_inv_def split: if_splits)
  next
    case Unsubscribing
    have "replacing ports json ms Unsub DaemonResponse.Unsubscribed s"
      using reader.IH Unsubscribing by (simp add: jws_inv_def)
    from replacing_conversed [OF this] have "conversed ports json ms (enqueue DaemonResponse.Unsubscribed
        (s\<lparr>subs := (fst (subs s), []), phase := Running\<rparr>))"
      by (simp add: apply_op_def unsubscribe_state_def)
    with reader Unsubscribing show ?thesis by (auto simp: reader_step_def jws_inv_def split: if_splits)
  qed (use reader in \<open>auto simp: reader_step_def\<close>)
qed (auto intro: jws_inv_start jws_inv_writer)

section \<open>Properties\<close>

lemma conversed_result:
  assumes "conversed ports json ms s"
  shows "\<exists>first rest resps log. ms = first # rest \<and> greeting json first
    \<and> list_all2 (item_reply ports json) (items_of rest) resps
    \<and> explains (text_of json) frame_event_to_response (admitted_since (moments json (items_of rest)) 0) (hello_ack # resps) log s
    \<and> timely json 1 (items_of rest) (moments json (items_of rest)) log
    \<and> (\<forall>ev. should_send_frame (subs s) ev \<longleftrightarrow>
         (\<exists>u. last_op (map (item_op json) (items_of rest)) = Some (Sub u) \<and> sub_passes u ev))"
proof -
  obtain m rest resps log where "ms = m # rest" "greeting json m"
    and "list_all2 (item_reply ports json) (items_of rest) resps"
    and "explains (text_of json) frame_event_to_response (admitted_since (moments json (items_of rest)) 0) ([hello_ack] @ resps) log s"
    and "timely json 1 (items_of rest) (moments json (items_of rest)) log"
    and "subs s = subs_after json (items_of rest)"
    using assms by (auto simp: conversed_def told_def told_with_def last_moments)
  then show ?thesis by (auto simp: filtered.last_op_decides)
qed

text \<open>C24: In every reachable state of a running JSON WebSocket session, the first message was a
  \<open>client_hello\<close>, and \<open>HelloAck\<close> and one reply per later text or binary message, in order, were
  sent or are queued. Every forwarded frame was of an interface subscribed at one moment and passed the
  filters in force at the same or a later moment, and both moments come after the client's last request
  whose reply precedes the frame in the output: once a client has its reply to a subscription, no frame
  that an earlier subscription asked for, or that its filters reject, reaches it any more. A frame tested
  now is forwarded exactly if the last subscription names its interface and one of its filters, if it has
  any, matches.\<close>

theorem ws_jsonl_answers_in_order:
  assumes "reach ports json dbg_str ms s d" and "phase s = Running"
  shows "\<exists>first rest resps log. ms = first # rest \<and> greeting json first
    \<and> list_all2 (item_reply ports json) (items_of rest) resps
    \<and> explains (text_of json) frame_event_to_response (admitted_since (moments json (items_of rest)) 0) (hello_ack # resps) log s
    \<and> timely json 1 (items_of rest) (moments json (items_of rest)) log
    \<and> (\<forall>ev. should_send_frame (subs s) ev \<longleftrightarrow>
         (\<exists>u. last_op (map (item_op json) (items_of rest)) = Some (Sub u) \<and> sub_passes u ev))"
  using jws_reach_inv [OF assms(1)] assms(2) by (intro conversed_result) (simp add: jws_inv_def)

text \<open>C25: A frame matches a filter exactly if every condition the filter states holds: the interface, the
  frame kind, the length bounds, and the identifier on every bit of the mask (all bits when the filter
  has no mask).\<close>

theorem frame_matches_filter_semantics:
  "frame_matches_filter ev flt \<longleftrightarrow>
     (case flt_iface flt of None \<Rightarrow> True | Some iface \<Rightarrow> ev_iface ev = iface)
     \<and> (case flt_is_fd flt of None \<Rightarrow> True | Some is_fd \<Rightarrow> ev_is_fd ev = is_fd)
     \<and> (case flt_min_len flt of None \<Rightarrow> True | Some n \<Rightarrow> n \<le> length (ev_data ev))
     \<and> (case flt_max_len flt of None \<Rightarrow> True | Some n \<Rightarrow> length (ev_data ev) \<le> n)
     \<and> (case flt_id flt of None \<Rightarrow> True
        | Some i \<Rightarrow> list_all (\<lambda>n. (case flt_id_mask flt of None \<Rightarrow> False | Some m \<Rightarrow> \<not> bit m n)
                                 \<or> bit (ev_id ev) n = bit i n) [0..<32])"
proof -
  have all_bits: "x = y \<longleftrightarrow> list_all (\<lambda>n. bit x n = bit y n) [0..<32]" for x y :: u32
    by (auto simp: list_all_iff bit_eq_iff dest: bit_imp_le_length)
  have mask_bits: "x AND m = y AND m \<longleftrightarrow> list_all (\<lambda>n. \<not> bit m n \<or> bit x n = bit y n) [0..<32]" for x y m :: u32
    by (auto simp: list_all_iff masked_eq_iff)
  show ?thesis
    unfolding frame_matches_filter_iff
    by (cases "flt_id flt"; cases "flt_id_mask flt") (simp_all add: mask_bits flip: all_bits)
qed

text \<open>C27: A JSON WebSocket session that ends without a greeting sent nothing but \<open>HelloAck\<close> and at most one
  error, and read at most one message; one that was greeted answered its messages in order, and forwarded
  frames only as they asked.\<close>

theorem ws_jsonl_outcomes:
  assumes "reach ports json dbg_str ms s d" and "phase s = Finished"
  shows "\<not> sender_alive s \<and>
    ((length ms \<le> 1 \<and> (\<forall>m\<in>set ms. \<not> greeting json m) \<and> (\<exists>log errors. errors \<in> {[]} \<union> range (\<lambda>e. [DaemonResponse.Error e])
        \<and> explains (text_of json) frame_event_to_response {} (hello_ack # errors) log s))
     \<or> (\<exists>first rest resps log. (ms = first # rest \<or> ms = first # rest @ [Close]) \<and> greeting json first
        \<and> list_all2 (item_reply ports json) (items_of rest) resps
        \<and> explains (text_of json) frame_event_to_response (admitted_since (moments json (items_of rest)) 0) (hello_ack # resps) log s
        \<and> timely json 1 (items_of rest) (moments json (items_of rest)) log))"
proof -
  have inv: "jws_inv ports json ms s" by (rule jws_reach_inv [OF assms(1)])
  then have dead: "\<not> sender_alive s" using assms(2) by (simp add: jws_inv_def)
  consider (failed) "not_greeted ports json s" "length ms \<le> 1" "\<forall>m\<in>set ms. \<not> greeting json m"
    | (greeted) ms' where "conversed ports json ms' s" "ms = ms' \<or> ms = ms' @ [Close]"
    using inv assms(2) by (auto simp: jws_inv_def)
  then show ?thesis
  proof cases
    case failed
    then obtain errors log where "errors \<in> {[]} \<union> range (\<lambda>e. [DaemonResponse.Error e])"
      and "explains (text_of json) frame_event_to_response {} (hello_ack # errors) log s"
      by (auto simp: not_greeted_def told_def told_with_def)
    with failed(2,3) dead show ?thesis by blast
  next
    case greeted
    obtain first rest resps log where "ms' = first # rest" "greeting json first"
      "list_all2 (item_reply ports json) (items_of rest) resps"
      "explains (text_of json) frame_event_to_response (admitted_since (moments json (items_of rest)) 0) (hello_ack # resps) log s"
      "timely json 1 (items_of rest) (moments json (items_of rest)) log"
      using conversed_result [OF greeted(1)] by blast
    with greeted(2) dead show ?thesis by (intro conjI disjI2 exI [of _ first] exI [of _ rest]) auto
  qed
qed

section \<open>Two locks\<close>

text \<open>A client that first asks for one identifier on one interface, then for everything on another.\<close>

definition race_frame :: frame_event where
  "race_frame = \<lparr>ev_ts_ms = 0, ev_iface = ''can0'', ev_dir = Rx, ev_id = 2, ev_is_fd = False, ev_data = []\<rparr>"

definition race_filter :: frame_filter where
  "race_filter = \<lparr>flt_iface = None, flt_id = Some 1, flt_id_mask = None, flt_is_fd = None, flt_min_len = None,
     flt_max_len = None\<rparr>"

text \<open>The printer shows the frame in question as no other response.\<close>

definition race_json :: json where
  "race_json =
     \<lparr>from_str = (\<lambda>t. if t = ''hello'' then Inr (ClientRequest.ClientHello ''tool'' ''1'')
        else if t = ''first'' then Inr (ClientRequest.Subscribe [''can0''] [race_filter])
        else if t = ''second'' then Inr (ClientRequest.Subscribe [''can1''] [])
        else Inl ''expected value''),
      to_string = (\<lambda>r. Inr (if r = frame_event_to_response race_frame then ''frame''
        else case r of DaemonResponse.HelloAck _ _ _ \<Rightarrow> ''hello_ack'' | DaemonResponse.Subscribed ifaces \<Rightarrow> ''subscribed '' @ concat ifaces
        | _ \<Rightarrow> ''other''))\<rparr>"

text \<open>A schedule of reader and writer steps, run from a state.\<close>

datatype action = Reader ws_input | Writer writer_event

fun run :: "'w ports \<Rightarrow> json \<Rightarrow> (string \<Rightarrow> string) \<Rightarrow> action list \<Rightarrow> message list \<times> ws_jsonl \<times> 'w bridge
    \<Rightarrow> message list \<times> ws_jsonl \<times> 'w bridge" where
  "run ports json dbg_str [] msd = msd"
| "run ports json dbg_str (Reader input # actions) (ms, s, d) =
     run ports json dbg_str actions (ms @ messages_received (phase s) input, reader_step ports json dbg_str input (s, d))"
| "run ports json dbg_str (Writer event # actions) (ms, s, d) =
     run ports json dbg_str actions (ms, writer_step json event s, d)"

lemma reach_run:
  assumes "reach ports json dbg_str ms s d" and "run ports json dbg_str actions (ms, s, d) = (ms', s', d')"
  shows "reach ports json dbg_str ms' s' d'"
  using assms
proof (induction actions arbitrary: ms s d)
  case (Cons a actions)
  show ?case
  proof (cases a)
    case (Reader input)
    obtain s1 d1 where "reader_step ports json dbg_str input (s, d) = (s1, d1)"
      by (cases "reader_step ports json dbg_str input (s, d)")
    with Reader Cons.prems Cons.IH [OF reach.reader [OF Cons.prems(1) this]] show ?thesis by simp
  next
    case (Writer event)
    with Cons.prems Cons.IH [OF reach.writer [OF Cons.prems(1)]] show ?thesis by simp
  qed
qed simp

text \<open>
  The frame is tested against the interfaces of the first subscription and the filters of the second;
  the client has the reply to the first by then and gets the one to the second later.
\<close>

definition race_schedule :: "action list" where
  "race_schedule =
     [Reader (Next (Text ''hello'')), Writer (Input (Recv IoOk)),
      Reader (Next (Text ''first'')), Reader Proceed, Writer (Input (Recv IoOk)),
      Writer (Input (BusEvent race_frame IoOk)), Reader (Next (Text ''second'')), Reader Proceed,
      Writer (CheckFilters IoOk), Writer (Input (Recv IoOk))]"

lemma race_run:
  "run ports race_json dbg_str race_schedule ([], session_start, d) =
     ([Text ''hello'', Text ''first'', Text ''second''],
      \<lparr>subs = ({''can1''}, []), outgoing = [], sender_alive = True, writer_alive = True,
       wire = [Text ''hello_ack'', Text ''subscribed can0'', Text ''frame'', Text ''subscribed can1''], pending = None, phase = Running\<rparr>, d)"
  by (simp add: race_schedule_def session_start_def enqueue_def reader_step_def handshake_step_def
      first_request_def running_step_def serve_raw_def race_json_def writer_step_def iface_check_def
      filters_check_def race_frame_def write_response_def write_out_def hello_ack_def frame_event_to_response_def)

text \<open>C26: Because interfaces and filters are behind separate locks, a frame can be forwarded that no
  subscription ever asked for. In this run the client subscribes to one identifier on \<open>can0\<close> and then to
  \<open>can1\<close>; a frame on \<open>can0\<close> with another identifier is sent between the two replies. No subscription
  admits the frame, and no other response is printed as it is.\<close>

theorem ws_jsonl_filter_race:
  "\<exists>s. reach ports race_json dbg_str [Text ''hello'', Text ''first'', Text ''second''] s d
     \<and> wire s = [Text ''hello_ack'', Text ''subscribed can0'', Text ''frame'', Text ''subscribed can1'']
     \<and> map (item_op race_json) (items_of [Text ''hello'', Text ''first'', Text ''second''])
         = [None, Some (Sub ([''can0''], [race_filter])), Some (Sub ([''can1''], []))]
     \<and> \<not> sub_passes ([''can0''], [race_filter]) race_frame \<and> \<not> sub_passes ([''can1''], []) race_frame
     \<and> (\<forall>r. to_string race_json r = Inr ''frame'' \<longleftrightarrow> r = frame_event_to_response race_frame)"
proof -
  note r = reach_run [OF reach.start race_run [of ports dbg_str d]]
  show ?thesis
  proof (rule exI, intro conjI, rule r)
    show "\<not> sub_passes ([''can0''], [race_filter]) race_frame" "\<not> sub_passes ([''can1''], []) race_frame"
      by (simp_all add: sub_passes_def frame_matches_filter_def race_filter_def race_frame_def)
    show "\<forall>r. to_string race_json r = Inr ''frame'' \<longleftrightarrow> r = frame_event_to_response race_frame"
      by (auto simp: race_json_def split: DaemonResponse.split)
  qed (simp_all add: items_of_def race_json_def)
qed

section \<open>Witnesses\<close>

theorem ws_jsonl_answers_in_order_witness:
  "\<exists>s. reach quiet_ports race_json id [Text ''hello'', Text ''first'', Text ''second''] s quiet_bridge
     \<and> phase s = Running \<and> greeting race_json (Text ''hello'') \<and> subs s = ({''can1''}, [])"
proof -
  note r = reach_run [OF reach.start race_run [of quiet_ports id quiet_bridge]]
  from ws_jsonl_answers_in_order [OF r] have "greeting race_json (Text ''hello'')" by auto
  with r show ?thesis by fastforce
qed

theorem ws_jsonl_outcomes_witness:
  "reach quiet_ports race_json id [] (finish session_start) quiet_bridge \<and> \<not> sender_alive (finish session_start)"
proof -
  have r: "reach quiet_ports race_json id [] (finish session_start) quiet_bridge"
    using reach_run [OF reach.start [of quiet_ports race_json id quiet_bridge], of "[Reader NextEnd]"]
    by (simp add: reader_step_def handshake_step_def session_start_def enqueue_def)
  from ws_jsonl_outcomes [OF r] r show ?thesis by simp
qed

end
