(* ===== verification/Servers.thy ===== *)
theory Servers
  imports Codec_Stream
begin

text \<open>
  How a connection finds its session: \<open>handle_connection\<close> of
  \<open>src/infra/transport_tcp/tcp_json_or_binary_server.rs\<close>, which looks at the first bytes, and the
  routes of \<open>src/infra/transport_ws/ws_json_or_binary_server.rs\<close>.
\<close>

datatype mode = BinaryMode | JsonlMode

text \<open>
  What \<open>socket.peek\<close> returned: an error, or the bytes it copied into the zeroed four-byte buffer
  (at most four, possibly fewer).
\<close>

definition handle_connection :: "(string, bytes) result \<Rightarrow> mode" where
  "handle_connection peek =
     (let (bytes_peeked, first_four_bytes) =
        (case peek of
           Inl e \<Rightarrow> (0, [0, 0, 0, 0])
         | Inr bs \<Rightarrow> (length bs, bs @ drop (length bs) [0, 0, 0, 0]))
      in if bytes_peeked = 4 \<and> first_four_bytes = MAGIC then BinaryMode else JsonlMode)"

definition NEXT_CONN_ID :: u64 where
  "NEXT_CONN_ID = 1"

text \<open>\<open>NEXT_CONN_ID.fetch_add(1)\<close>: the id handed out, and the counter after it.\<close>

definition next_conn_id :: "u64 \<Rightarrow> u64 \<times> u64" where
  "next_conn_id counter = (counter, counter + 1)"

definition ws_route :: "string \<Rightarrow> mode option" where
  "ws_route path =
     (if path = ''/ws/text'' then Some JsonlMode
      else if path = ''/ws/binary'' then Some BinaryMode
      else None)"

lemma handle_connection_iff: "handle_connection peek = BinaryMode \<longleftrightarrow> peek = Inr MAGIC"
proof (cases peek)
  case (Inr bs)
  have "length bs = 4 \<Longrightarrow> bs @ drop (length bs) [0, 0, 0, 0] = bs" by simp
  with Inr show ?thesis by (auto simp: handle_connection_def)
qed (simp add: handle_connection_def)

lemma take_client_packet: "take 4 (client_packet req) = MAGIC"
proof -
  obtain t payload where "encode_client_payload req = Inr (t, payload)" by (rule encode_client_payload_total)
  then show ?thesis by (simp add: client_packet_eq packet_def)
qed

text \<open>C36: Which session a TCP connection gets depends on the peek alone: the binary one exactly if four bytes
  were there and are the magic. Every binary request starts that way, so a binary client whose first
  four bytes have arrived is recognised, and no text that starts with a brace is. But a binary client
  whose first segment carries fewer than four bytes is taken for a JSON client, whatever it sends next.\<close>

theorem tcp_mode_by_magic:
  "(handle_connection peek = BinaryMode \<longleftrightarrow> peek = Inr MAGIC)
   \<and> handle_connection (Inr (take 4 (client_packet req))) = BinaryMode
   \<and> handle_connection (Inr (take 4 (as_bytes (CHR ''{'' # text)))) = JsonlMode
   \<and> (k < 4 \<longrightarrow> handle_connection (Inr (take k (client_packet req))) = JsonlMode)"
proof (intro conjI impI)
  show "handle_connection peek = BinaryMode \<longleftrightarrow> peek = Inr MAGIC" by (rule handle_connection_iff)
  show "handle_connection (Inr (take 4 (client_packet req))) = BinaryMode"
    by (simp add: handle_connection_iff take_client_packet)
  have "take 4 (as_bytes (CHR ''{'' # text)) \<noteq> MAGIC"
    by (simp add: MAGIC_def as_bytes_def byte_of_char_def take_Cons')
  then have "handle_connection (Inr (take 4 (as_bytes (CHR ''{'' # text)))) \<noteq> BinaryMode"
    by (simp add: handle_connection_iff)
  then show "handle_connection (Inr (take 4 (as_bytes (CHR ''{'' # text)))) = JsonlMode"
    by (cases "handle_connection (Inr (take 4 (as_bytes (CHR ''{'' # text))))") simp_all
  assume "k < 4"
  then have "length (take k (client_packet req)) \<noteq> length MAGIC" by simp
  then have "take k (client_packet req) \<noteq> MAGIC" by metis
  then have "handle_connection (Inr (take k (client_packet req))) \<noteq> BinaryMode" by (simp add: handle_connection_iff)
  then show "handle_connection (Inr (take k (client_packet req))) = JsonlMode"
    by (cases "handle_connection (Inr (take k (client_packet req)))") simp_all
qed

theorem tcp_mode_by_magic_witness:
  "handle_connection (Inr (take 3 (client_packet (ClientBinaryRequest.Ping 1)))) = JsonlMode"
  using tcp_mode_by_magic [of "Inr []" "ClientBinaryRequest.Ping 1" "[]" 3] by simp

end
