(* ===== verification/Json_Clients.thy ===== *)
theory Json_Clients
  imports Json_Sample Tcp_Jsonl Ws_Jsonl Servers
begin

text \<open>
  The other end of the JSON transports. First what any client can rely on that cuts the output of a
  JSON-lines session into lines and parses them. Then the two example clients of the repository,
  \<open>examples/rust/tcp_jsonl_client.rs\<close> and \<open>examples/rust/ws_json_client.rs\<close>, joined with a session
  of the daemon.
\<close>

section \<open>A client that reads lines\<close>

definition read_response :: "seq_forms \<Rightarrow> (string \<Rightarrow> json_value option) \<Rightarrow> bytes \<Rightarrow> DaemonResponse option" where
  "read_response seqs parse line = Option.bind (parse (of_bytes line)) (response_of_value seqs)"

lemma read_response_line:
  assumes "serde_documented seqs json print parse"
  shows "read_response seqs parse (as_bytes (projr (to_string json r))) = Some r"
  using assms response_text [OF assms, of r] by (simp add: read_response_def serde_documented_def)

text \<open>C5: A client that cuts what a running JSON-lines session has written at line feeds and parses the lines gets
  \<open>HelloAck\<close> and then the replies to its lines, in order and each once, interleaved with frames it
  subscribed to; the replies it has not got yet are queued.\<close>

theorem jsonl_client_reads_replies:
  assumes "serde_documented seqs json print parse"
    and "Tcp_Jsonl.reach ports json dbg_str ls s d" and "Tcp_Jsonl.phase s = Tcp_Jsonl.Running" and "writer_alive s"
  shows "\<exists>first rest resps log. ls = first # rest \<and> list_all2 (line_reply ports json) (commands rest) resps
    \<and> Tcp_Jsonl.hello_ack # resps = replies log @ outgoing s
    \<and> (\<forall>ev. Forwarded ev \<in> set log \<longrightarrow> ev \<in> admitted (line_op json) iface_passes (commands rest))
    \<and> map (read_response seqs parse) (fst (split_lines (wire s)))
        = map (\<lambda>e. Some (entry_resp frame_event_to_json_response e)) log
    \<and> snd (split_lines (wire s)) = []"
proof -
  have doc: "json_documented json" by (rule serde_json_documented [OF assms(1)])
  have "jsonl_running ports json ls s" using jsonl_reach_inv [OF assms(2)] assms(3) by (simp add: jsonl_inv_def)
  then obtain first rest where ls: "ls = first # rest"
    and ans: "jsonl_answered ports json [Tcp_Jsonl.hello_ack] (commands rest) s"
    by (cases ls) (auto simp: jsonl_running_def dest!: jsonl.served_answered)
  from ans assms(4) line_of_documented [OF doc] obtain resps log where
    log: "list_all2 (line_reply ports json) (commands rest) resps"
      "Tcp_Jsonl.hello_ack # resps = replies log @ outgoing s"
      "wire s = concat (map (\<lambda>r. the (line_of json r)) (map (entry_resp frame_event_to_json_response) log))"
      "\<forall>ev. Forwarded ev \<in> set log \<longrightarrow> ev \<in> admitted (line_op json) iface_passes (commands rest)"
    by (auto simp: answered_def comp_def)
  from jsonl_lines [OF doc] have
    "split_lines (wire s) = (map (\<lambda>e. as_bytes (projr (to_string json (entry_resp frame_event_to_json_response e)))) log, [])"
    by (simp only: log(3)) (simp add: comp_def)
  then have "map (read_response seqs parse) (fst (split_lines (wire s)))
        = map (\<lambda>e. Some (entry_resp frame_event_to_json_response e)) log" "snd (split_lines (wire s)) = []"
    by (simp_all add: comp_def read_response_line [OF assms(1)])
  with ls log show ?thesis by blast
qed

section \<open>The JSON-lines example client\<close>

datatype client_error = ConnectionClosed | ReadFailed | InvalidJson | NotHelloAck | WriteFailed

datatype client_progress =
    Connected
  | AwaitHelloAck
  | AwaitIfaces
  | AwaitSubscribed
  | AwaitSendAck
  | Streaming
  | Exited client_error

text \<open>The bytes sent, the bytes received and not yet read, and what was printed, each with its label.\<close>

record jsonl_client =
  progress :: client_progress
  sent :: bytes
  incoming :: bytes
  printed :: "(string \<times> json_value) list"

definition jsonl_client_start :: jsonl_client where
  "jsonl_client_start = \<lparr>progress = Connected, sent = [], incoming = [], printed = []\<rparr>"

definition hello_fields :: fields where
  "hello_fields =
     [(''type'', JStr ''ClientHello''), (''client'', JStr ''rust-tcp-jsonl''),
      (''client_version'', JStr ''0.1.0''), (''features'', JArr [JStr ''jsonl''])]"

definition list_ifaces_fields :: fields where
  "list_ifaces_fields = [(''type'', JStr ''ListIfaces'')]"

definition subscribe_fields :: fields where
  "subscribe_fields = [(''type'', JStr ''Subscribe''), (''iface'', JStr ''can0'')]"

definition send_frame_fields :: fields where
  "send_frame_fields =
     [(''type'', JStr ''SendFrame''), (''iface'', JStr ''can0''),
      (''frame'', JObj [(''id'', JInt 291), (''extended'', JBool True), (''fd'', JBool False),
         (''brs'', JBool False), (''data'', JStr ''11223344'')])]"

definition send_value :: "(json_value \<Rightarrow> string) \<Rightarrow> io \<Rightarrow> fields \<Rightarrow> client_progress \<Rightarrow> jsonl_client \<Rightarrow> jsonl_client" where
  "send_value print io v next c =
     (let line = as_bytes (print (JObj v)) @ [newline] in
      case io of
        IoOk \<Rightarrow> c\<lparr>sent := sent c @ line, progress := next\<rparr>
      | IoFail n \<Rightarrow> c\<lparr>sent := sent c @ take n line, progress := Exited WriteFailed\<rparr>)"

text \<open>\<open>read_line\<close>: up to and including the next line feed, or what is left at the end; \<open>None\<close> while it waits.\<close>

definition read_line :: "bool \<Rightarrow> bytes \<Rightarrow> (bytes \<times> bytes) option" where
  "read_line eof bs =
     (if newline \<in> set bs
      then Some (takeWhile (\<lambda>b. b \<noteq> newline) bs @ [newline], tl (dropWhile (\<lambda>b. b \<noteq> newline) bs))
      else if eof then Some (bs, []) else None)"

definition recv_value :: "(string \<Rightarrow> json_value option) \<Rightarrow> bytes \<Rightarrow> (client_error, json_value) result" where
  "recv_value parse line =
     (case from_utf8 line of
        None \<Rightarrow> Inl ReadFailed
      | Some t \<Rightarrow>
          if t = [] then Inl ConnectionClosed
          else (case parse t of None \<Rightarrow> Inl InvalidJson | Some v \<Rightarrow> Inr v))"

definition on_value :: "(json_value \<Rightarrow> string) \<Rightarrow> io \<Rightarrow> json_value \<Rightarrow> jsonl_client \<Rightarrow> jsonl_client" where
  "on_value print io msg c =
     (case progress c of
        AwaitHelloAck \<Rightarrow>
          if get_field msg ''type'' \<noteq> Some (JStr ''HelloAck'') then c\<lparr>progress := Exited NotHelloAck\<rparr>
          else send_value print io list_ifaces_fields AwaitIfaces (c\<lparr>printed := printed c @ [(''HelloAck'', msg)]\<rparr>)
      | AwaitIfaces \<Rightarrow>
          send_value print io subscribe_fields AwaitSubscribed (c\<lparr>printed := printed c @ [(''Ifaces'', msg)]\<rparr>)
      | AwaitSubscribed \<Rightarrow>
          send_value print io send_frame_fields AwaitSendAck (c\<lparr>printed := printed c @ [(''Subscribed'', msg)]\<rparr>)
      | AwaitSendAck \<Rightarrow> c\<lparr>printed := printed c @ [(''SendFrame response'', msg)], progress := Streaming\<rparr>
      | Streaming \<Rightarrow> c\<lparr>printed := printed c @ [(''recv'', msg)]\<rparr>
      | _ \<Rightarrow> c)"

text \<open>One step: the hello is written, or the pending \<open>recv\<close> is tried, which may fail.\<close>

definition jsonl_client_step :: "(json_value \<Rightarrow> string) \<Rightarrow> (string \<Rightarrow> json_value option) \<Rightarrow> bool \<Rightarrow> io
    \<Rightarrow> jsonl_client \<Rightarrow> jsonl_client" where
  "jsonl_client_step print parse eof io c =
     (case progress c of
        Connected \<Rightarrow> send_value print io hello_fields AwaitHelloAck c
      | Exited e \<Rightarrow> c
      | _ \<Rightarrow>
          (case read_line eof (incoming c) of
             None \<Rightarrow> c
           | Some (line, rest) \<Rightarrow>
               (case recv_value parse line of
                  Inl e \<Rightarrow> c\<lparr>progress := Exited e\<rparr>
                | Inr msg \<Rightarrow> on_value print io msg (c\<lparr>incoming := rest\<rparr>))))"

text \<open>
  Client and session joined by a connection. The lines the session has read are the first of what the
  client sent, the last of them possibly unfinished if the client's stream ended there; the bytes the
  client has received are the first of those the session wrote.
\<close>

definition lines_bytes :: "string list \<Rightarrow> bytes" where
  "lines_bytes ls = concat (map (\<lambda>l. as_bytes l @ [newline]) ls)"

definition lines_from :: "string list \<Rightarrow> bytes \<Rightarrow> bool" where
  "lines_from ls bs \<longleftrightarrow> list_all (\<lambda>l. newline \<notin> set (as_bytes l)) ls
     \<and> (prefix (lines_bytes ls) bs \<or> lines_bytes ls = bs @ [newline])"

inductive jsonl_joint :: "'w ports \<Rightarrow> json \<Rightarrow> (string \<Rightarrow> string) \<Rightarrow> (json_value \<Rightarrow> string) \<Rightarrow> (string \<Rightarrow> json_value option)
    \<Rightarrow> string list \<Rightarrow> tcp_jsonl \<Rightarrow> 'w bridge \<Rightarrow> bytes \<Rightarrow> jsonl_client \<Rightarrow> bool"
  for ports json dbg_str print parse where
  start: "jsonl_joint ports json dbg_str print parse [] Tcp_Jsonl.session_start d [] jsonl_client_start"
| reader: "jsonl_joint ports json dbg_str print parse ls s d cb c
    \<Longrightarrow> Tcp_Jsonl.reader_step ports json dbg_str input (s, d) = (s', d')
    \<Longrightarrow> lines_from (ls @ lines_read (Tcp_Jsonl.phase s) input) (sent c)
    \<Longrightarrow> jsonl_joint ports json dbg_str print parse (ls @ lines_read (Tcp_Jsonl.phase s) input) s' d' cb c"
| writer: "jsonl_joint ports json dbg_str print parse ls s d cb c
    \<Longrightarrow> jsonl_joint ports json dbg_str print parse ls (Tcp_Jsonl.writer_step json input s) d cb c"
| others: "jsonl_joint ports json dbg_str print parse ls s d cb c
    \<Longrightarrow> jsonl_joint ports json dbg_str print parse ls s d' cb c"
| deliver: "jsonl_joint ports json dbg_str print parse ls s d cb c \<Longrightarrow> prefix (cb @ bs) (wire s)
    \<Longrightarrow> jsonl_joint ports json dbg_str print parse ls s d (cb @ bs) (c\<lparr>incoming := incoming c @ bs\<rparr>)"
| client: "jsonl_joint ports json dbg_str print parse ls s d cb c
    \<Longrightarrow> jsonl_joint ports json dbg_str print parse ls s d cb (jsonl_client_step print parse eof io c)"

section \<open>The hello is refused\<close>

text \<open>No response carries the type the clients wait for, and none of their messages is a request.\<close>

lemma response_type: "get_field (response_value r) ''type'' \<noteq> Some (JStr ''HelloAck'')"
  by (cases r) (simp_all add: tagged_def)

lemma client_messages_refused:
  "request_of_value seqs (JObj hello_fields) = None" "request_of_value seqs (JObj list_ifaces_fields) = None"
  "request_of_value seqs (JObj subscribe_fields) = None" "request_of_value seqs (JObj send_frame_fields) = None"
  by (simp_all add: request_of_value_def untag_def request_fields_def hello_fields_def list_ifaces_fields_def
      subscribe_fields_def send_frame_fields_def)

lemma refused_text:
  assumes "serde_documented seqs json print parse" and "plain_object fs" and "request_of_value seqs (JObj fs) = None"
    and "prefix t (print (JObj fs))"
  obtains e where "from_str json t = Inl e"
proof (cases "from_str json t")
  case (Inr r)
  with assms show thesis
    unfolding serde_documented_def strict_prefix_def by (cases "t = print (JObj fs)") auto
qed (rule that)

lemma response_parsed:
  assumes "serde_documented seqs json print parse" and "prefix t (print (response_value r))" and "parse t = Some v"
  shows "get_field v ''type'' \<noteq> Some (JStr ''HelloAck'')"
proof -
  obtain fs where fs: "response_value r = JObj fs" by (rule response_object)
  then obtain gs where gs: "parse (print (JObj fs)) = Some (JObj gs)" "map_of gs = map_of fs"
    using assms(1) unfolding serde_documented_def by blast
  have "t = print (JObj fs)"
    using assms fs unfolding serde_documented_def strict_prefix_def by fastforce
  with gs assms(3) fs response_type [of r] show ?thesis by auto
qed

section \<open>The JSON-lines client is stuck\<close>

abbreviation text_line :: "string \<Rightarrow> bytes" where
  "text_line t \<equiv> as_bytes t @ [newline]"

lemma prefix_as_bytes: "prefix (as_bytes t) (as_bytes u) \<Longrightarrow> prefix t u"
  by (metis map_mono_prefix of_bytes_as_bytes of_bytes_def)

lemma first_line_read:
  assumes "lines_from [t] bs" and "prefix bs (text_line u)"
  shows "prefix t u"
proof -
  have "prefix (as_bytes t) bs \<or> as_bytes t = bs"
    using assms(1) append_prefixD by (auto simp: lines_from_def lines_bytes_def)
  then have "prefix (as_bytes t) (text_line u)" using assms(2) prefix_order.trans by blast
  moreover have "as_bytes t \<noteq> text_line u" using assms(1) by (auto simp: lines_from_def)
  ultimately show ?thesis by (simp add: prefix_as_bytes)
qed

lemma read_line_prefix: "read_line eof bs = Some (line, rest) \<Longrightarrow> prefix line bs"
proof -
  have "prefix (takeWhile (\<lambda>b. b \<noteq> newline) bs @ [newline]) bs" if here: "newline \<in> set bs"
  proof -
    obtain ys zs where "bs = ys @ newline # zs" "newline \<notin> set ys" using split_list_first [OF here] by blast
    then have "takeWhile (\<lambda>b. b \<noteq> newline) bs = ys" by (auto simp: takeWhile_append)
    with \<open>bs = _\<close> show ?thesis by (simp add: prefix_def)
  qed
  then show "read_line eof bs = Some (line, rest) \<Longrightarrow> prefix line bs"
    by (auto simp: read_line_def split: if_splits)
qed

lemma recv_response:
  assumes "serde_documented seqs json print parse" and "prefix line (text_line (print (response_value r)))"
    and "recv_value parse line = Inr msg"
  shows "get_field msg ''type'' \<noteq> Some (JStr ''HelloAck'')"
proof -
  obtain t where t: "as_bytes t = line" "parse t = Some msg"
    using assms(3) by (auto simp: recv_value_def from_utf8_Some split: option.splits if_splits)
  have "text_line u = as_bytes (u @ [line_feed])" for u
    by (simp add: line_feed_def) (simp add: as_bytes_def)
  with assms(2) t(1) have "prefix t (print (response_value r) @ [line_feed])"
    by (metis prefix_as_bytes)
  then consider "t = print (response_value r) @ [line_feed]" | "prefix t (print (response_value r))" by auto
  then obtain u where "prefix u (print (response_value r))" "parse u = Some msg"
    using t(2) assms(1) unfolding serde_documented_def by cases auto
  then show ?thesis by (rule response_parsed [OF assms(1)])
qed

definition said_hello :: "json \<Rightarrow> (json_value \<Rightarrow> string) \<Rightarrow> string list \<Rightarrow> tcp_jsonl \<Rightarrow> bool" where
  "said_hello json print ls s \<longleftrightarrow>
     (Tcp_Jsonl.phase s = Tcp_Jsonl.Handshake \<and> ls = [] \<or> (\<exists>r. Tcp_Jsonl.phase s = Tcp_Jsonl.Finished r)) \<and> subs s = {}
     \<and> prefix (wire s) (text_line (print (response_value Tcp_Jsonl.hello_ack)))
     \<and> (outgoing s = [] \<or> outgoing s = [Tcp_Jsonl.hello_ack] \<and> wire s = [])"

definition unheard :: "(json_value \<Rightarrow> string) \<Rightarrow> bytes \<Rightarrow> jsonl_client \<Rightarrow> bool" where
  "unheard print cb c \<longleftrightarrow> printed c = [] \<and> prefix (sent c) (text_line (print (JObj hello_fields)))
     \<and> (progress c = Connected \<and> sent c = [] \<and> incoming c = cb \<or> progress c = AwaitHelloAck \<and> incoming c = cb
         \<or> progress c \<in> range Exited)"

lemma said_hello_writer:
  assumes "to_string json Tcp_Jsonl.hello_ack = Inr (print (response_value Tcp_Jsonl.hello_ack))"
    and "said_hello json print ls s"
  shows "said_hello json print ls (Tcp_Jsonl.writer_step json input s)
    \<and> prefix (wire s) (wire (Tcp_Jsonl.writer_step json input s))"
proof (cases input)
  case (Recv io)
  with assms show ?thesis
    by (cases io)
      (auto simp: said_hello_def Tcp_Jsonl.writer_step_def Tcp_Jsonl.write_response_def write_out_def stop_writer_def
        take_is_prefix simp del: take_append prefix_snoc)
qed (use assms in \<open>auto simp: said_hello_def Tcp_Jsonl.writer_step_def Tcp_Jsonl.should_send_frame_def stop_writer_def\<close>)

lemma hello_plain: "plain_object hello_fields"
  by (simp add: hello_fields_def numeral_eq_Suc)

lemma said_hello_reader:
  assumes "serde_documented seqs json print parse" and "said_hello json print ls s"
    and "Tcp_Jsonl.reader_step ports json dbg_str input (s, d) = (s', d')"
    and "lines_from (ls @ lines_read (Tcp_Jsonl.phase s) input) (sent c)" and "unheard print cb c"
  shows "said_hello json print (ls @ lines_read (Tcp_Jsonl.phase s) input) s' \<and> wire s' = wire s"
proof (cases "Tcp_Jsonl.phase s")
  case Handshake
  have "\<exists>e. from_str json t = Inl e" if "input = Line t" for t
  proof -
    from that Handshake assms(2,4) have "lines_from [t] (sent c)" by (simp add: said_hello_def)
    then have "prefix t (print (JObj hello_fields))" using assms(5) by (auto simp: unheard_def intro: first_line_read)
    then show ?thesis using refused_text [OF assms(1) hello_plain client_messages_refused(1)] by blast
  qed
  with Handshake have "\<exists>r. s' = Tcp_Jsonl.finish r s"
    using assms(3) by (cases input) (auto simp: Tcp_Jsonl.reader_step_def Tcp_Jsonl.handshake_step_def)
  with assms(2) show ?thesis by (auto simp: said_hello_def Tcp_Jsonl.finish_def drop_sender_def)
qed (use assms(2,3) in \<open>auto simp: said_hello_def Tcp_Jsonl.reader_step_def\<close>)

lemma unheard_step:
  assumes "serde_documented seqs json print parse" and "unheard print cb c"
    and "prefix cb (text_line (print (response_value r)))"
  shows "unheard print cb (jsonl_client_step print parse eof io c)"
proof (cases "progress c")
  case Connected
  with assms(2) show ?thesis
    by (cases io) (auto simp: jsonl_client_step_def send_value_def Let_def unheard_def take_is_prefix
      simp del: take_append prefix_snoc)
next
  case AwaitHelloAck
  show ?thesis
  proof (cases "read_line eof (incoming c)")
    case (Some lr)
    obtain line rest where lr: "lr = (line, rest)" by (rule prod.exhaust)
    have "prefix line (text_line (print (response_value r)))"
      using Some lr AwaitHelloAck assms(2) read_line_prefix
      by (intro prefix_order.trans [OF _ assms(3)]) (auto simp: unheard_def)
    note recv_response [OF assms(1) this]
    with AwaitHelloAck Some lr assms(2) show ?thesis
      by (auto simp: jsonl_client_step_def on_value_def unheard_def split: sum.split)
  qed (use AwaitHelloAck assms(2) in \<open>simp add: jsonl_client_step_def\<close>)
qed (use assms(2) in \<open>auto simp: jsonl_client_step_def unheard_def\<close>)

lemma jsonl_joint_stuck:
  assumes "jsonl_joint ports json dbg_str print parse ls s d cb c" and "serde_documented seqs json print parse"
  shows "said_hello json print ls s \<and> unheard print cb c \<and> prefix cb (wire s)"
  using assms(1)
proof (induction rule: jsonl_joint.induct)
  case (start d)
  then show ?case
    by (auto simp: said_hello_def unheard_def jsonl_client_start_def Tcp_Jsonl.session_start_def enqueue_def)
next
  case (reader ls s d cb c input s' d')
  with said_hello_reader [OF assms(2), of ls s ports dbg_str input d s' d' c cb] show ?case by simp
next
  case (writer ls s d cb c input)
  have "to_string json Tcp_Jsonl.hello_ack = Inr (print (response_value Tcp_Jsonl.hello_ack))"
    using assms(2) by (simp add: serde_documented_def)
  with writer said_hello_writer [of json print ls s input] show ?case by (auto intro: prefix_order.trans)
next
  case (deliver ls s d cb c bs)
  then show ?case by (simp add: unheard_def)
next
  case (client ls s d cb c eof io)
  then have "prefix cb (text_line (print (response_value Tcp_Jsonl.hello_ack)))"
    by (auto simp: said_hello_def intro: prefix_order.trans)
  with client unheard_step [OF assms(2)] show ?case by blast
qed simp

section \<open>The WebSocket example client\<close>

datatype ws_progress = WsConnected | WsAwaitHelloAck | WsListening | WsExited "(client_error, unit) result"

text \<open>The messages sent and what was printed: the \<open>HelloAck\<close>, then texts.\<close>

record ws_client =
  ws_progress :: ws_progress
  ws_sent :: "message list"
  ws_printed :: "(json_value + string) list"

definition ws_client_start :: ws_client where
  "ws_client_start = \<lparr>ws_progress = WsConnected, ws_sent = [], ws_printed = []\<rparr>"

definition ws_client_path :: string where
  "ws_client_path = ''/ws''"

definition ws_hello_fields :: fields where
  "ws_hello_fields =
     [(''type'', JStr ''ClientHello''), (''client'', JStr ''rust-ws-json''),
      (''client_version'', JStr ''0.1.0''), (''features'', JArr [JStr ''ws-json''])]"

definition ws_subscribe_fields :: fields where
  "ws_subscribe_fields = [(''type'', JStr ''Subscribe''), (''iface'', JStr ''can0'')]"

definition ws_send_value :: "(json_value \<Rightarrow> string) \<Rightarrow> io \<Rightarrow> fields \<Rightarrow> ws_progress \<Rightarrow> ws_client \<Rightarrow> ws_client" where
  "ws_send_value print io v next c =
     (case io of
        IoOk \<Rightarrow> c\<lparr>ws_sent := ws_sent c @ [Text (print (JObj v))], ws_progress := next\<rparr>
      | IoFail n \<Rightarrow> c\<lparr>ws_progress := WsExited (Inl WriteFailed)\<rparr>)"

text \<open>
  One step with what \<open>ws.next()\<close> gave. \<open>to_text\<close> is \<open>Message::to_text\<close> of the WebSocket library:
  the text of a message, if it has one.
\<close>

definition ws_client_step :: "(json_value \<Rightarrow> string) \<Rightarrow> (string \<Rightarrow> json_value option) \<Rightarrow> (message \<Rightarrow> string option)
    \<Rightarrow> ws_input \<Rightarrow> io \<Rightarrow> ws_client \<Rightarrow> ws_client" where
  "ws_client_step print parse to_text input io c =
     (case ws_progress c of
        WsConnected \<Rightarrow> ws_send_value print io ws_hello_fields WsAwaitHelloAck c
      | WsAwaitHelloAck \<Rightarrow>
          (case input of
             NextEnd \<Rightarrow> c\<lparr>ws_progress := WsExited (Inl ConnectionClosed)\<rparr>
           | NextError \<Rightarrow> c\<lparr>ws_progress := WsExited (Inl ReadFailed)\<rparr>
           | Next msg \<Rightarrow>
               (case to_text msg of
                  None \<Rightarrow> c\<lparr>ws_progress := WsExited (Inl ReadFailed)\<rparr>
                | Some t \<Rightarrow>
                    (case parse t of
                       None \<Rightarrow> c\<lparr>ws_progress := WsExited (Inl InvalidJson)\<rparr>
                     | Some v \<Rightarrow>
                         if get_field v ''type'' \<noteq> Some (JStr ''HelloAck'')
                         then c\<lparr>ws_progress := WsExited (Inl NotHelloAck)\<rparr>
                         else ws_send_value print io ws_subscribe_fields WsListening
                                (c\<lparr>ws_printed := ws_printed c @ [Inl v]\<rparr>)))
           | _ \<Rightarrow> c)
      | WsListening \<Rightarrow>
          (case input of
             NextEnd \<Rightarrow> c\<lparr>ws_progress := WsExited (Inr ())\<rparr>
           | NextError \<Rightarrow> c\<lparr>ws_progress := WsExited (Inl ReadFailed)\<rparr>
           | Next (Text t) \<Rightarrow> c\<lparr>ws_printed := ws_printed c @ [Inr t]\<rparr>
           | _ \<Rightarrow> c)
      | WsExited r \<Rightarrow> c)"

text \<open>
  Client and session joined: the session has received the first of the client's messages, and the
  client is given, one after the other, the messages the session sent, or an error, or the end.
\<close>

inductive ws_joint :: "'w ports \<Rightarrow> json \<Rightarrow> (string \<Rightarrow> string) \<Rightarrow> (json_value \<Rightarrow> string) \<Rightarrow> (string \<Rightarrow> json_value option)
    \<Rightarrow> (message \<Rightarrow> string option) \<Rightarrow> message list \<Rightarrow> ws_jsonl \<Rightarrow> 'w bridge \<Rightarrow> nat \<Rightarrow> ws_client \<Rightarrow> bool"
  for ports json dbg_str print parse to_text where
  start: "ws_joint ports json dbg_str print parse to_text [] Ws_Jsonl.session_start d 0 ws_client_start"
| reader: "ws_joint ports json dbg_str print parse to_text ms s d k c
    \<Longrightarrow> Ws_Jsonl.reader_step ports json dbg_str input (s, d) = (s', d')
    \<Longrightarrow> prefix (ms @ messages_received (Ws_Jsonl.phase s) input) (ws_sent c)
    \<Longrightarrow> ws_joint ports json dbg_str print parse to_text (ms @ messages_received (Ws_Jsonl.phase s) input) s' d' k c"
| writer: "ws_joint ports json dbg_str print parse to_text ms s d k c
    \<Longrightarrow> ws_joint ports json dbg_str print parse to_text ms (Ws_Jsonl.writer_step json event s) d k c"
| others: "ws_joint ports json dbg_str print parse to_text ms s d k c
    \<Longrightarrow> ws_joint ports json dbg_str print parse to_text ms s d' k c"
| message: "ws_joint ports json dbg_str print parse to_text ms s d k c \<Longrightarrow> k < length (wire s)
    \<Longrightarrow> ws_joint ports json dbg_str print parse to_text ms s d (Suc k)
          (ws_client_step print parse to_text (Next (wire s ! k)) io c)"
| client: "ws_joint ports json dbg_str print parse to_text ms s d k c \<Longrightarrow> \<forall>msg. input \<noteq> Next msg
    \<Longrightarrow> ws_joint ports json dbg_str print parse to_text ms s d k (ws_client_step print parse to_text input io c)"

lemma ws_messages_refused:
  "request_of_value seqs (JObj ws_hello_fields) = None" "request_of_value seqs (JObj ws_subscribe_fields) = None"
  by (simp_all add: request_of_value_def untag_def request_fields_def ws_hello_fields_def ws_subscribe_fields_def)

lemma ws_hello_plain: "plain_object ws_hello_fields"
  by (simp add: ws_hello_fields_def numeral_eq_Suc)

text \<open>The session never gets past the handshake and sends only texts of responses.\<close>

definition ws_refused :: "(json_value \<Rightarrow> string) \<Rightarrow> message list \<Rightarrow> ws_jsonl \<Rightarrow> bool" where
  "ws_refused print ms s \<longleftrightarrow>
     (Ws_Jsonl.phase s = Ws_Jsonl.Handshake \<and> ms = [] \<or> Ws_Jsonl.phase s = Ws_Jsonl.Finished)
     \<and> list_all (\<lambda>m. \<exists>r. m = Text (print (response_value r))) (wire s)"

definition ws_unheard :: "(json_value \<Rightarrow> string) \<Rightarrow> ws_client \<Rightarrow> bool" where
  "ws_unheard print c \<longleftrightarrow> ws_printed c = []
     \<and> (ws_progress c = WsConnected \<and> ws_sent c = []
         \<or> ws_progress c \<in> insert WsAwaitHelloAck (range (\<lambda>e. WsExited (Inl e)))
           \<and> prefix (ws_sent c) [Text (print (JObj ws_hello_fields))])"

lemma ws_refused_write:
  assumes "\<And>r. to_string json r = Inr (print (response_value r))" and "ws_refused print ms s"
  shows "ws_refused print ms (Ws_Jsonl.write_response json io r s)"
  using assms(2)
  by (cases io) (auto simp: ws_refused_def Ws_Jsonl.write_response_def write_out_def stop_writer_def assms(1)
      take_Cons' split: if_splits)

lemma ws_refused_fields:
  "ws_refused print ms (s\<lparr>pending := p\<rparr>) = ws_refused print ms s"
  "ws_refused print ms (s\<lparr>outgoing := q\<rparr>) = ws_refused print ms s"
  "ws_refused print ms (stop_writer s) = ws_refused print ms s"
  by (simp_all add: ws_refused_def stop_writer_def)

lemma ws_refused_writer:
  assumes "\<And>r. to_string json r = Inr (print (response_value r))" and "ws_refused print ms s"
  shows "ws_refused print ms (Ws_Jsonl.writer_step json event s)"
  using assms(2)
  by (auto simp: Ws_Jsonl.writer_step_def Let_def ws_refused_fields intro!: ws_refused_write assms(1)
      split: option.split writer_event.split writer_input.split list.split)

lemma ws_refused_reader:
  assumes "serde_documented seqs json print parse" and "ws_refused print ms s"
    and "Ws_Jsonl.reader_step ports json dbg_str input (s, d) = (s', d')"
    and "prefix (ms @ messages_received (Ws_Jsonl.phase s) input) (ws_sent c)" and "ws_unheard print c"
  shows "ws_refused print (ms @ messages_received (Ws_Jsonl.phase s) input) s' \<and> wire s' = wire s"
proof (cases "Ws_Jsonl.phase s")
  case Handshake
  obtain e where e: "from_str json (print (JObj ws_hello_fields)) = Inl e"
    using refused_text [OF assms(1) ws_hello_plain ws_messages_refused(1)] by blast
  have ended: "ws_refused print ms' (Ws_Jsonl.finish (enqueue r s)) \<and> wire (Ws_Jsonl.finish (enqueue r s)) = wire s"
    "ws_refused print ms' (Ws_Jsonl.finish s) \<and> wire (Ws_Jsonl.finish s) = wire s" for ms' r
    using assms(2) by (auto simp: ws_refused_def Ws_Jsonl.finish_def drop_sender_def enqueue_def)
  show ?thesis
  proof (cases input)
    case (Next m)
    then have "m = Text (print (JObj ws_hello_fields))"
      using Handshake assms(2,4,5) by (auto simp: ws_refused_def ws_unheard_def prefix_Cons)
    with Next Handshake e assms(3) ended show ?thesis
      by (auto simp: Ws_Jsonl.reader_step_def Ws_Jsonl.handshake_step_def first_request_def)
  qed (use Handshake assms(2,3) ended in \<open>auto simp: Ws_Jsonl.reader_step_def Ws_Jsonl.handshake_step_def\<close>)
qed (use assms(2,3) in \<open>auto simp: ws_refused_def Ws_Jsonl.reader_step_def\<close>)

lemma ws_unheard_step:
  assumes "serde_documented seqs json print parse" and "\<And>t. to_text (Text t) = Some t" and "ws_unheard print c"
    and "\<And>m. input = Next m \<Longrightarrow> \<exists>r. m = Text (print (response_value r))"
  shows "ws_unheard print (ws_client_step print parse to_text input io c)"
proof (cases "ws_progress c")
  case WsConnected
  with assms(3) show ?thesis by (cases io) (auto simp: ws_client_step_def ws_send_value_def ws_unheard_def)
next
  case WsAwaitHelloAck
  show ?thesis
  proof (cases input)
    case (Next m)
    then obtain r where "m = Text (print (response_value r))" using assms(4) by blast
    with WsAwaitHelloAck Next assms(2,3) response_parsed [OF assms(1), of "print (response_value r)" r] show ?thesis
      by (auto simp: ws_client_step_def ws_unheard_def split: option.split)
  qed (use WsAwaitHelloAck assms(3) in \<open>auto simp: ws_client_step_def ws_unheard_def\<close>)
qed (use assms(3) in \<open>auto simp: ws_client_step_def ws_unheard_def\<close>)

lemma ws_joint_stuck:
  assumes "ws_joint ports json dbg_str print parse to_text ms s d k c"
    and "serde_documented seqs json print parse" and "\<And>t. to_text (Text t) = Some t"
  shows "ws_refused print ms s \<and> ws_unheard print c"
  using assms(1)
proof (induction rule: ws_joint.induct)
  case (start d)
  then show ?case
    by (auto simp: ws_refused_def ws_unheard_def ws_client_start_def Ws_Jsonl.session_start_def enqueue_def)
next
  case (reader ms s d k c input s' d')
  with ws_refused_reader [OF assms(2), of ms s ports dbg_str input d s' d' c] show ?case by simp
next
  case (writer ms s d k c event)
  with ws_refused_writer [of json print ms s event] assms(2) show ?case by (simp add: serde_documented_def)
next
  case (message ms s d k c io)
  then have "\<exists>r. wire s ! k = Text (print (response_value r))" by (simp add: ws_refused_def list_all_length)
  with message ws_unheard_step [OF assms(2,3), of c "Next (wire s ! k)" io] show ?case by simp
next
  case (client ms s d k c input io)
  with ws_unheard_step [OF assms(2,3), of c input io] show ?case by simp
qed simp

section \<open>Property\<close>

text \<open>C38: The two JSON example clients and the daemon do not understand each other, whatever is delivered or
  fails: their \<open>ClientHello\<close> is no request, so the session never gets past the handshake, and the
  daemon's \<open>hello_ack\<close> is not the \<open>HelloAck\<close> they wait for, so they never print anything. The path the
  WebSocket client connects to is not even routed.\<close>

theorem json_clients_not_understood:
  assumes "serde_documented seqs json print parse" and "\<And>t. to_text (Text t) = Some t"
  shows "(jsonl_joint ports json dbg_str print parse ls s d cb c \<longrightarrow>
        (Tcp_Jsonl.phase s = Tcp_Jsonl.Handshake \<or> (\<exists>r. Tcp_Jsonl.phase s = Tcp_Jsonl.Finished r))
        \<and> printed c = [] \<and> progress c \<in> {Connected, AwaitHelloAck} \<union> range Exited)
    \<and> (ws_joint ports json dbg_str print parse to_text ms s' d k c' \<longrightarrow>
        Ws_Jsonl.phase s' \<in> {Ws_Jsonl.Handshake, Ws_Jsonl.Finished}
        \<and> ws_printed c' = [] \<and> ws_progress c' \<in> {WsConnected, WsAwaitHelloAck} \<union> range (\<lambda>e. WsExited (Inl e)))
    \<and> ws_route ws_client_path = None"
proof (intro conjI impI)
  assume "jsonl_joint ports json dbg_str print parse ls s d cb c"
  from jsonl_joint_stuck [OF this assms(1)]
  show "Tcp_Jsonl.phase s = Tcp_Jsonl.Handshake \<or> (\<exists>r. Tcp_Jsonl.phase s = Tcp_Jsonl.Finished r)" "printed c = []"
    "progress c \<in> {Connected, AwaitHelloAck} \<union> range Exited"
    by (auto simp: said_hello_def unheard_def)
next
  assume "ws_joint ports json dbg_str print parse to_text ms s' d k c'"
  from ws_joint_stuck [OF this assms]
  show "Ws_Jsonl.phase s' \<in> {Ws_Jsonl.Handshake, Ws_Jsonl.Finished}" "ws_printed c' = []"
    "ws_progress c' \<in> {WsConnected, WsAwaitHelloAck} \<union> range (\<lambda>e. WsExited (Inl e))"
    by (auto simp: ws_refused_def ws_unheard_def)
qed (simp add: ws_route_def ws_client_path_def)

section \<open>Witnesses\<close>

lemma newline_sample_print: "newline \<notin> set (as_bytes (sample_print v))"
  by (simp add: newline_in line_feed_sample_print)

text \<open>The client says hello and the session reads it.\<close>

lemma jsonl_joint_sample:
  "\<exists>s c. jsonl_joint quiet_ports sample_serde id sample_print sample_parse [sample_print (JObj hello_fields)] s
     quiet_bridge [] c \<and> progress c = AwaitHelloAck"
proof -
  let ?J = "jsonl_joint quiet_ports sample_serde id sample_print sample_parse"
  let ?c = "jsonl_client_step sample_print sample_parse False IoOk jsonl_client_start"
  let ?t = "sample_print (JObj hello_fields)"
  have c: "progress ?c = AwaitHelloAck" "sent ?c = text_line ?t"
    by (simp_all add: jsonl_client_step_def jsonl_client_start_def send_value_def)
  have "?J [] Tcp_Jsonl.session_start quiet_bridge [] ?c" by (intro jsonl_joint.client jsonl_joint.start)
  moreover obtain s' d' where "Tcp_Jsonl.reader_step quiet_ports sample_serde id (Line ?t)
      (Tcp_Jsonl.session_start, quiet_bridge) = (s', d')"
    by (rule prod.exhaust)
  moreover have "lines_read (Tcp_Jsonl.phase Tcp_Jsonl.session_start) (Line ?t) = [?t]"
    by (simp add: Tcp_Jsonl.session_start_def enqueue_def)
  moreover have "lines_from [?t] (sent ?c)"
    by (simp add: c(2) lines_from_def lines_bytes_def newline_sample_print)
  ultimately have "?J [?t] s' d' [] ?c" using jsonl_joint.reader [of quiet_ports sample_serde id] by fastforce
  then show ?thesis using c(1) jsonl_joint.others by blast
qed

lemma ws_joint_sample:
  "\<exists>s c. ws_joint quiet_ports sample_serde id sample_print sample_parse (\<lambda>m. case m of Text t \<Rightarrow> Some t | _ \<Rightarrow> None)
     [Text (sample_print (JObj ws_hello_fields))] s quiet_bridge 0 c \<and> ws_progress c = WsAwaitHelloAck"
proof -
  let ?to_text = "\<lambda>m. case m of Text t \<Rightarrow> Some t | _ \<Rightarrow> None"
  let ?J = "ws_joint quiet_ports sample_serde id sample_print sample_parse ?to_text"
  let ?c = "ws_client_step sample_print sample_parse ?to_text NextEnd IoOk ws_client_start"
  let ?m = "Text (sample_print (JObj ws_hello_fields))"
  have c: "ws_progress ?c = WsAwaitHelloAck" "ws_sent ?c = [?m]"
    by (simp_all add: ws_client_step_def ws_client_start_def ws_send_value_def)
  have "?J [] Ws_Jsonl.session_start quiet_bridge 0 ?c" by (intro ws_joint.client ws_joint.start) simp
  moreover obtain s' d' where "Ws_Jsonl.reader_step quiet_ports sample_serde id (Next ?m)
      (Ws_Jsonl.session_start, quiet_bridge) = (s', d')"
    by (rule prod.exhaust)
  moreover have "messages_received (Ws_Jsonl.phase Ws_Jsonl.session_start) (Next ?m) = [?m]"
    by (simp add: Ws_Jsonl.session_start_def enqueue_def)
  ultimately have "?J [?m] s' d' 0 ?c"
    using ws_joint.reader [of quiet_ports sample_serde id sample_print sample_parse ?to_text] c(2) by fastforce
  then show ?thesis using c(1) ws_joint.others by blast
qed

theorem json_clients_not_understood_witness:
  "(\<exists>s c. jsonl_joint quiet_ports sample_serde id sample_print sample_parse [sample_print (JObj hello_fields)] s
       quiet_bridge [] c \<and> progress c = AwaitHelloAck \<and> Tcp_Jsonl.phase s \<noteq> Tcp_Jsonl.Running \<and> printed c = [])
   \<and> (\<exists>s c. ws_joint quiet_ports sample_serde id sample_print sample_parse
        (\<lambda>m. case m of Text t \<Rightarrow> Some t | _ \<Rightarrow> None) [Text (sample_print (JObj ws_hello_fields))] s quiet_bridge 0 c
       \<and> ws_progress c = WsAwaitHelloAck \<and> Ws_Jsonl.phase s \<noteq> Ws_Jsonl.Running \<and> ws_printed c = [])"
  using jsonl_joint_sample ws_joint_sample
    json_clients_not_understood [OF sample_serde_documented, of "\<lambda>m. case m of Text t \<Rightarrow> Some t | _ \<Rightarrow> None" quiet_ports id]
  by fastforce

lemma jsonl_reader_sample:
  "Tcp_Jsonl.reach quiet_ports sample_serde id
     [sample_print (request_value (ClientRequest.ClientHello ''tool'' ''1''))]
     (Tcp_Jsonl.session_start\<lparr>Tcp_Jsonl.phase := Tcp_Jsonl.Running\<rparr>) quiet_bridge"
proof -
  let ?t = "sample_print (request_value (ClientRequest.ClientHello ''tool'' ''1''))"
  have "from_str sample_serde ?t = Inr (ClientRequest.ClientHello ''tool'' ''1'')"
    by (rule request_text [OF sample_serde_documented]) simp
  then have "Tcp_Jsonl.reader_step quiet_ports sample_serde id (Line ?t) (Tcp_Jsonl.session_start, quiet_bridge)
      = (Tcp_Jsonl.session_start\<lparr>Tcp_Jsonl.phase := Tcp_Jsonl.Running\<rparr>, quiet_bridge)"
    by (simp add: Tcp_Jsonl.reader_step_def Tcp_Jsonl.handshake_step_def Tcp_Jsonl.session_start_def enqueue_def)
  from Tcp_Jsonl.reach.reader [OF Tcp_Jsonl.reach.start this] show ?thesis
    by (simp add: Tcp_Jsonl.session_start_def enqueue_def)
qed

lemma replies_only: "\<forall>ev. Forwarded ev \<notin> set log \<Longrightarrow> log = map Reply (replies log)"
  by (induction log rule: replies.induct) auto

theorem jsonl_client_reads_replies_witness:
  "\<exists>s. Tcp_Jsonl.reach quiet_ports sample_serde id
      [sample_print (request_value (ClientRequest.ClientHello ''tool'' ''1''))] s quiet_bridge
     \<and> map (read_response no_seqs sample_parse) (fst (split_lines (wire s))) = [Some Tcp_Jsonl.hello_ack]"
proof -
  let ?s = "Tcp_Jsonl.writer_step sample_serde (Recv IoOk)
    (Tcp_Jsonl.session_start\<lparr>Tcp_Jsonl.phase := Tcp_Jsonl.Running\<rparr>)"
  have r: "Tcp_Jsonl.reach quiet_ports sample_serde id
      [sample_print (request_value (ClientRequest.ClientHello ''tool'' ''1''))] ?s quiet_bridge"
    by (rule Tcp_Jsonl.reach.writer [OF jsonl_reader_sample])
  have s: "Tcp_Jsonl.phase ?s = Tcp_Jsonl.Running" "writer_alive ?s" "outgoing ?s = []"
    by (simp_all add: Tcp_Jsonl.writer_step_def Tcp_Jsonl.session_start_def enqueue_def Tcp_Jsonl.write_response_def
        sample_serde_def write_out_def)
  from jsonl_client_reads_replies [OF sample_serde_documented r s(1,2)] obtain log where
    "[Tcp_Jsonl.hello_ack] = replies log" "\<forall>ev. Forwarded ev \<notin> set log"
    "map (read_response no_seqs sample_parse) (fst (split_lines (wire ?s)))
      = map (\<lambda>e. Some (entry_resp frame_event_to_json_response e)) log"
    using s(3) by (auto simp: commands_def)
  moreover from this(1,2) have "log = [Reply Tcp_Jsonl.hello_ack]" using replies_only [of log] by (metis list.map)
  ultimately show ?thesis using r by fastforce
qed

end
