(* ===== verification/Socketcan.thy ===== *)
theory Socketcan
  imports Service
begin

text \<open>
  The SocketCAN adapters \<open>src/infra/socketcan_tx.rs\<close> and \<open>src/infra/socketcan_rx.rs\<close>. The
  \<open>socketcan\<close> crate and \<open>tokio::task::spawn_blocking\<close> are parameters: the record
  \<open>socketcan\<close> holds the constructors, socket operations and accessors the adapters call. What
  their documentation promises is stated by predicates on the record, which the properties that
  need it name as hypotheses. \<open>FdFlags\<close>, a bit set, is the set of its flags.
\<close>

section \<open>The library the adapters call\<close>

datatype ('sid, 'eid) can_id = Standard 'sid | Extended 'eid

datatype fd_flag = BRS | ESI

record ('sid, 'eid, 'cf, 'ff, 'cs, 'fs, 'w) socketcan =
  StandardId_new :: "u16 \<Rightarrow> 'sid option"
  StandardId_as_raw :: "'sid \<Rightarrow> u16"
  ExtendedId_new :: "u32 \<Rightarrow> 'eid option"
  ExtendedId_as_raw :: "'eid \<Rightarrow> u32"
  CanFrame_new :: "('sid, 'eid) can_id \<Rightarrow> bytes \<Rightarrow> 'cf option"
  CanFrame_id :: "'cf \<Rightarrow> ('sid, 'eid) can_id"
  CanFrame_data :: "'cf \<Rightarrow> bytes"
  CanFdFrame_with_flags :: "('sid, 'eid) can_id \<Rightarrow> bytes \<Rightarrow> fd_flag set \<Rightarrow> 'ff option"
  CanFdFrame_id :: "'ff \<Rightarrow> ('sid, 'eid) can_id"
  CanFdFrame_data :: "'ff \<Rightarrow> bytes"
  CanSocket_open :: "string \<Rightarrow> 'w \<Rightarrow> (string, 'cs) result \<times> 'w"
  CanSocket_write_frame :: "'cs \<Rightarrow> 'cf \<Rightarrow> 'w \<Rightarrow> (string, unit) result \<times> 'w"
  CanFdSocket_open :: "string \<Rightarrow> 'w \<Rightarrow> (string, 'fs) result \<times> 'w"
  CanFdSocket_write_frame :: "'fs \<Rightarrow> 'ff \<Rightarrow> 'w \<Rightarrow> (string, unit) result \<times> 'w"
  spawn_blocking :: "('w \<Rightarrow> (string, unit) result \<times> 'w) \<Rightarrow> 'w
    \<Rightarrow> (string, (string, unit) result) result \<times> 'w"

section \<open>Transmit\<close>

definition make_id ::
    "('sid, 'eid, 'cf, 'ff, 'cs, 'fs, 'w) socketcan \<Rightarrow> u32 \<Rightarrow> (string, ('sid, 'eid) can_id) result" where
  "make_id sc id_raw =
     (if id_raw \<le> 0x7FF then
        (case StandardId_new sc (ucast id_raw) of
           None \<Rightarrow> Inl (''invalid standard id: '' @ show_word id_raw)
         | Some std \<Rightarrow> Inr (Standard std))
      else if id_raw \<le> 0x1FFFFFFF then
        (case ExtendedId_new sc id_raw of
           None \<Rightarrow> Inl (''invalid extended id: '' @ show_word id_raw)
         | Some ext \<Rightarrow> Inr (Extended ext))
      else Inl (''CAN id out of range: '' @ show_word id_raw))"

text \<open>\<open>with_context\<close> on the failed open: the text shown is the context's.\<close>

definition send_classic ::
    "('sid, 'eid, 'cf, 'ff, 'cs, 'fs, 'w) socketcan \<Rightarrow> string \<Rightarrow> 'cf \<Rightarrow> 'w \<Rightarrow> (string, unit) result \<times> 'w" where
  "send_classic sc iface frame w =
     (case CanSocket_open sc iface w of
        (Inl _, w') \<Rightarrow> (Inl (''open CanSocket('' @ iface @ '')''), w')
      | (Inr sock, w') \<Rightarrow>
          (case CanSocket_write_frame sc sock frame w' of
             (Inr _, w'') \<Rightarrow> (Inr (), w'')
           | (Inl e, w'') \<Rightarrow> (Inl e, w'')))"

definition send_fd ::
    "('sid, 'eid, 'cf, 'ff, 'cs, 'fs, 'w) socketcan \<Rightarrow> string \<Rightarrow> 'ff \<Rightarrow> 'w \<Rightarrow> (string, unit) result \<times> 'w" where
  "send_fd sc iface frame w =
     (case CanFdSocket_open sc iface w of
        (Inl _, w') \<Rightarrow> (Inl (''open CanFdSocket('' @ iface @ '')''), w')
      | (Inr sock, w') \<Rightarrow>
          (case CanFdSocket_write_frame sc sock frame w' of
             (Inr _, w'') \<Rightarrow> (Inr (), w'')
           | (Inl e, w'') \<Rightarrow> (Inl e, w'')))"

text \<open>The checks on the request, in the source's order.\<close>

definition validate_request :: "bool \<Rightarrow> bool \<Rightarrow> bool \<Rightarrow> bytes \<Rightarrow> (string, unit) result" where
  "validate_request is_fd brs esi data =
     (if is_fd then
        (if length data > 64
         then Inl (''CAN-FD payload too large: '' @ show_nat (length data) @ '' (max 64)'')
         else Inr ())
      else
        (if length data > 8
         then Inl (''Classic CAN payload too large: '' @ show_nat (length data) @ '' (max 8)'')
         else if brs \<or> esi then Inl ''brs/esi flags supplied when is_fd is false''
         else Inr ()))"

definition fd_flags :: "bool \<Rightarrow> bool \<Rightarrow> fd_flag set" where
  "fd_flags brs esi =
     (let flags = {};
          flags = (if brs then insert BRS flags else flags)
      in if esi then insert ESI flags else flags)"

definition send_blocking ::
    "('sid, 'eid, 'cf, 'ff, 'cs, 'fs, 'w) socketcan \<Rightarrow> string \<Rightarrow> u32 \<Rightarrow> bool \<Rightarrow> bool \<Rightarrow> bool \<Rightarrow> bytes
      \<Rightarrow> 'w \<Rightarrow> (string, unit) result \<times> 'w" where
  "send_blocking sc iface i is_fd brs esi data w =
     (case validate_request is_fd brs esi data of
        Inl e \<Rightarrow> (Inl e, w)
      | Inr _ \<Rightarrow>
          (case make_id sc i of
             Inl e \<Rightarrow> (Inl e, w)
           | Inr sid \<Rightarrow>
               if is_fd then
                 (case CanFdFrame_with_flags sc sid data (fd_flags brs esi) of
                    None \<Rightarrow> (Inl (''failed to construct CanFdFrame (len='' @ show_nat (length data) @ '')''), w)
                  | Some frame \<Rightarrow> send_fd sc iface frame w)
               else
                 (case CanFrame_new sc sid data of
                    None \<Rightarrow> (Inl (''failed to construct CanFrame (len='' @ show_nat (length data) @ '')''), w)
                  | Some frame \<Rightarrow> send_classic sc iface frame w)))"

definition socketcan_send ::
    "('sid, 'eid, 'cf, 'ff, 'cs, 'fs, 'w) socketcan \<Rightarrow> string \<Rightarrow> u32 \<Rightarrow> bool \<Rightarrow> bool \<Rightarrow> bool \<Rightarrow> bytes
      \<Rightarrow> 'w \<Rightarrow> (string, unit) result \<times> 'w" where
  "socketcan_send sc iface i is_fd brs esi data w =
     (case spawn_blocking sc (send_blocking sc iface i is_fd brs esi data) w of
        (Inl e, w') \<Rightarrow> (Inl (''Tokio task join error: '' @ e), w')
      | (Inr r, w') \<Rightarrow> (r, w'))"

section \<open>Receive\<close>

definition id_to_u32 :: "('sid, 'eid, 'cf, 'ff, 'cs, 'fs, 'w) socketcan \<Rightarrow> ('sid, 'eid) can_id \<Rightarrow> u32" where
  "id_to_u32 sc i =
     (case i of
        Standard sid \<Rightarrow> ucast (StandardId_as_raw sc sid)
      | Extended eid \<Rightarrow> ExtendedId_as_raw sc eid)"

text \<open>The receiver's own copy of the clock function.\<close>

definition now_ms :: "int \<Rightarrow> u64" where
  "now_ms t = (if t < 0 then 0 else word_of_int (t div 1000000))"

lemma rx_now_ms_eq [simp]: "now_ms t = Service.now_ms t"
  by (simp add: now_ms_def Service.now_ms_def)

text \<open>
  The reader loops never end. An iteration is one \<open>read_frame\<close>: its result and the clock at
  that moment are inputs. \<open>as_normal\<close> is \<open>CanAnyFrame::from\<close> with the match on \<open>Normal\<close>.
\<close>

definition rx_fd_step ::
    "('sid, 'eid, 'cf, 'ff, 'cs, 'fs, 'w) socketcan \<Rightarrow> string \<Rightarrow> (string, 'ff) result \<times> int
      \<Rightarrow> 'w bridge \<Rightarrow> 'w bridge" where
  "rx_fd_step sc iface input d =
     (case input of
        (Inr fd_frame, t) \<Rightarrow>
          publish_frame
            \<lparr>ev_ts_ms = now_ms t, ev_iface = iface, ev_dir = Rx,
             ev_id = id_to_u32 sc (CanFdFrame_id sc fd_frame), ev_is_fd = True,
             ev_data = CanFdFrame_data sc fd_frame\<rparr> d
      | (Inl _, t) \<Rightarrow> d)"

definition rx_classic_step ::
    "('sid, 'eid, 'cf, 'ff, 'cs, 'fs, 'w) socketcan \<Rightarrow> ('f \<Rightarrow> 'cf option) \<Rightarrow> string
      \<Rightarrow> (string, 'f) result \<times> int \<Rightarrow> 'w bridge \<Rightarrow> 'w bridge" where
  "rx_classic_step sc as_normal iface input d =
     (case input of
        (Inr frame, t) \<Rightarrow>
          (case as_normal frame of
             Some cf \<Rightarrow>
               publish_frame
                 \<lparr>ev_ts_ms = now_ms t, ev_iface = iface, ev_dir = Rx,
                  ev_id = id_to_u32 sc (CanFrame_id sc cf), ev_is_fd = False,
                  ev_data = CanFrame_data sc cf\<rparr> d
           | None \<Rightarrow> d)
      | (Inl _, t) \<Rightarrow> d)"

text \<open>
  The state after the reads received so far: the CAN-FD loop if that socket opened, otherwise
  the classic loop if that one did, otherwise nothing.
\<close>

definition run_one_iface_rx ::
    "('sid, 'eid, 'cf, 'ff, 'cs, 'fs, 'w) socketcan \<Rightarrow> ('f \<Rightarrow> 'cf option) \<Rightarrow> string
      \<Rightarrow> ((string, 'ff) result \<times> int) list \<Rightarrow> ((string, 'f) result \<times> int) list
      \<Rightarrow> 'w bridge \<Rightarrow> 'w bridge" where
  "run_one_iface_rx sc as_normal iface fd_reads classic_reads d =
     (case CanFdSocket_open sc iface (world d) of
        (Inr sock, w) \<Rightarrow> fold (rx_fd_step sc iface) fd_reads (d\<lparr>world := w\<rparr>)
      | (Inl e_fd, w) \<Rightarrow>
          (case CanSocket_open sc iface w of
             (Inl e, w') \<Rightarrow> d\<lparr>world := w'\<rparr>
           | (Inr sock, w') \<Rightarrow>
               fold (rx_classic_step sc as_normal iface) classic_reads (d\<lparr>world := w'\<rparr>)))"

text \<open>The interfaces \<open>start_socketcan_rx\<close> starts a reader on.\<close>

definition rx_ifaces :: "string list \<Rightarrow> string list" where
  "rx_ifaces ifaces = filter (\<lambda>s. s \<noteq> []) (map trim ifaces)"

section \<open>What the library documents\<close>

text \<open>Eleven-bit and 29-bit identifiers: which raw values are accepted, and that they are kept.\<close>

definition ids_documented :: "('sid, 'eid, 'cf, 'ff, 'cs, 'fs, 'w) socketcan \<Rightarrow> bool" where
  "ids_documented sc \<longleftrightarrow>
     (\<forall>v. v \<le> 0x7FF \<longrightarrow> (\<exists>s. StandardId_new sc v = Some s \<and> StandardId_as_raw sc s = v))
     \<and> (\<forall>v. v \<le> 0x1FFFFFFF \<longrightarrow> (\<exists>e. ExtendedId_new sc v = Some e \<and> ExtendedId_as_raw sc e = v))"

text \<open>\<open>spawn_blocking\<close> runs the closure and returns its result unless the task fails to join.\<close>

definition spawn_documented :: "('sid, 'eid, 'cf, 'ff, 'cs, 'fs, 'w) socketcan \<Rightarrow> bool" where
  "spawn_documented sc \<longleftrightarrow>
     (\<forall>f w. (\<exists>e w'. spawn_blocking sc f w = (Inl e, w')) \<or> spawn_blocking sc f w = (Inr (fst (f w)), snd (f w)))"

text \<open>
  A library instance that satisfies both: identifiers are their raw values, frames are what they
  were built from, a socket is its interface name, and the world is the list of frames written.
\<close>

definition recording_socketcan ::
    "(u16, u32, (u16, u32) can_id \<times> bytes, (u16, u32) can_id \<times> bytes \<times> fd_flag set, string, string,
      (string \<times> (u16, u32) can_id \<times> bytes) list) socketcan" where
  "recording_socketcan =
     \<lparr>StandardId_new = (\<lambda>v. if v \<le> 0x7FF then Some v else None),
      StandardId_as_raw = (\<lambda>v. v),
      ExtendedId_new = (\<lambda>v. if v \<le> 0x1FFFFFFF then Some v else None),
      ExtendedId_as_raw = (\<lambda>v. v),
      CanFrame_new = (\<lambda>i data. if length data \<le> 8 then Some (i, data) else None),
      CanFrame_id = fst,
      CanFrame_data = snd,
      CanFdFrame_with_flags = (\<lambda>i data fl. if length data \<le> 64 then Some (i, data, fl) else None),
      CanFdFrame_id = fst,
      CanFdFrame_data = (\<lambda>(i, data, fl). data),
      CanSocket_open = (\<lambda>iface w. (Inr iface, w)),
      CanSocket_write_frame = (\<lambda>s (i, data) w. (Inr (), w @ [(s, i, data)])),
      CanFdSocket_open = (\<lambda>iface w. (Inr iface, w)),
      CanFdSocket_write_frame = (\<lambda>s (i, data, fl) w. (Inr (), w @ [(s, i, data)])),
      spawn_blocking = (\<lambda>f w. (Inr (fst (f w)), snd (f w)))\<rparr>"

lemma recording_ids: "ids_documented recording_socketcan"
  and recording_spawn: "spawn_documented recording_socketcan"
  by (simp_all add: ids_documented_def spawn_documented_def recording_socketcan_def)

section \<open>Lemmas\<close>

lemma validate_request_Inr:
  "validate_request is_fd brs esi data = Inr () \<longleftrightarrow>
     (if is_fd then length data \<le> 64 else length data \<le> 8 \<and> \<not> brs \<and> \<not> esi)"
  by (auto simp: validate_request_def)

lemma make_id_Inr_range: "make_id sc i = Inr c \<Longrightarrow> i \<le> 0x1FFFFFFF"
  by (auto simp: make_id_def word_le_nat_alt split: if_splits)

lemma ucast_u16_small: "i \<le> 0x7FF \<Longrightarrow> unat (ucast i :: u16) = unat (i :: u32)"
  by (simp add: unsigned_ucast_eq word_le_nat_alt take_bit_nat_eq_self)

lemma send_blocking_accepts:
  assumes "send_blocking sc iface i is_fd brs esi data w = (r, w')" and "r = Inr () \<or> w' \<noteq> w"
  obtains c where "validate_request is_fd brs esi data = Inr ()" and "make_id sc i = Inr c"
  using assms by (auto simp: send_blocking_def split: sum.splits if_splits)

lemma socketcan_send_Inr:
  assumes "socketcan_send sc iface i is_fd brs esi data w = (Inr (), w')" and "spawn_documented sc"
  shows "send_blocking sc iface i is_fd brs esi data w = (Inr (), w')"
proof -
  let ?f = "send_blocking sc iface i is_fd brs esi data"
  have "(\<exists>e w'. spawn_blocking sc ?f w = (Inl e, w')) \<or> spawn_blocking sc ?f w = (Inr (fst (?f w)), snd (?f w))"
    using assms(2) by (simp add: spawn_documented_def)
  with assms(1) show ?thesis by (cases "?f w") (auto simp: socketcan_send_def)
qed

definition within_can_limits :: "u32 \<Rightarrow> bool \<Rightarrow> bool \<Rightarrow> bool \<Rightarrow> bytes \<Rightarrow> bool" where
  "within_can_limits i is_fd brs esi data \<longleftrightarrow>
     i \<le> 0x1FFFFFFF \<and> length data \<le> (if is_fd then 64 else 8) \<and> (is_fd \<or> \<not> brs \<and> \<not> esi)"

lemma accepted_within_limits:
  assumes "send_blocking sc iface i is_fd brs esi data w = (r, w')" and "r = Inr () \<or> w' \<noteq> w"
  shows "within_can_limits i is_fd brs esi data"
  using assms
  by (rule send_blocking_accepts)
    (auto simp: within_can_limits_def validate_request_Inr dest: make_id_Inr_range split: if_splits)

section \<open>Properties\<close>

text \<open>C30: Whatever the library does, a transmit request that reports success or that touches the outside
  world at all is within the limits of CAN: the identifier has at most 29 bits, the payload at most 64
  bytes for CAN-FD and 8 for classic CAN, and the CAN-FD flags come with CAN-FD frames only.\<close>

theorem send_blocking_limits:
  assumes "send_blocking sc iface i is_fd brs esi data w = (r, w')" and "r = Inr () \<or> w' \<noteq> w"
  shows "i \<le> 0x1FFFFFFF \<and> length data \<le> (if is_fd then 64 else 8) \<and> (is_fd \<or> \<not> brs \<and> \<not> esi)"
  using accepted_within_limits [OF assms] by (simp add: within_can_limits_def)

theorem send_blocking_limits_witness:
  "send_blocking recording_socketcan ''can0'' 0x18DAF110 True True False [1, 2, 3] []
     = (Inr (), [(''can0'', Extended 0x18DAF110, [1, 2, 3])])
   \<and> (0x18DAF110 :: u32) \<le> 0x1FFFFFFF"
proof -
  have s: "send_blocking recording_socketcan ''can0'' 0x18DAF110 True True False [1, 2, 3] []
     = (Inr (), [(''can0'', Extended 0x18DAF110, [1, 2, 3])])"
    by (simp add: send_blocking_def validate_request_def make_id_def send_fd_def recording_socketcan_def)
  then show ?thesis using send_blocking_limits [OF s] by simp
qed

text \<open>The identifier a request carries and the one the receive path reports are the same number: a
  request identifier becomes a standard identifier up to 0x7FF, an extended one up to 0x1FFFFFFF, reading
  it back gives the request's number, and every larger number is refused by name.\<close>

lemma make_id_id_to_u32:
  assumes "ids_documented sc"
  shows "case make_id sc i of
      Inr (Standard s) \<Rightarrow> i \<le> 0x7FF \<and> id_to_u32 sc (Standard s) = i
    | Inr (Extended e) \<Rightarrow> 0x7FF < i \<and> i \<le> 0x1FFFFFFF \<and> id_to_u32 sc (Extended e) = i
    | Inl e \<Rightarrow> 0x1FFFFFFF < i \<and> e = ''CAN id out of range: '' @ show_word i"
proof -
  consider "i \<le> 0x7FF" | "0x7FF < i" "i \<le> 0x1FFFFFFF" | "0x1FFFFFFF < i" by (meson not_le)
  then show ?thesis
  proof cases
    case 1
    have u: "unat (ucast i :: u16) = unat i" using 1 by (rule ucast_u16_small)
    then have "(ucast i :: u16) \<le> 0x7FF" using 1 by (simp add: word_le_nat_alt)
    then obtain s where "StandardId_new sc (ucast i) = Some s" "StandardId_as_raw sc s = ucast i"
      using assms by (auto simp: ids_documented_def)
    moreover have "ucast (ucast i :: u16) = i"
      using u by (simp add: word_unat_eq_iff unsigned_ucast_eq unsigned_take_bit_eq)
    ultimately show ?thesis using 1 by (simp add: make_id_def id_to_u32_def)
  next
    case 2
    then obtain e where "ExtendedId_new sc i = Some e" "ExtendedId_as_raw sc e = i"
      using assms by (auto simp: ids_documented_def)
    with 2 show ?thesis by (simp add: make_id_def id_to_u32_def not_le [symmetric])
  next
    case 3
    then have "\<not> i \<le> 0x7FF" by (auto simp: word_le_nat_alt word_less_nat_alt)
    with 3 show ?thesis by (simp add: make_id_def not_le [symmetric])
  qed
qed

text \<open>The frames among the results of a sequence of reads, with the clock at each.\<close>

definition frames_read :: "((string, 'f) result \<times> int) list \<Rightarrow> ('f \<times> int) list" where
  "frames_read reads = concat (map (\<lambda>(r, t). case r of Inl _ \<Rightarrow> [] | Inr f \<Rightarrow> [(f, t)]) reads)"

lemma published_fd_steps:
  "published (fold (rx_fd_step sc iface) reads d) = published d @
     map (\<lambda>(f, t). \<lparr>ev_ts_ms = now_ms t, ev_iface = iface, ev_dir = Rx,
        ev_id = id_to_u32 sc (CanFdFrame_id sc f), ev_is_fd = True, ev_data = CanFdFrame_data sc f\<rparr>)
       (frames_read reads)"
  by (induction reads arbitrary: d)
    (auto simp: rx_fd_step_def frames_read_def publish_frame_def split: sum.splits)

lemma published_classic_steps:
  "published (fold (rx_classic_step sc as_normal iface) reads d) = published d @
     map (\<lambda>(f, t). \<lparr>ev_ts_ms = now_ms t, ev_iface = iface, ev_dir = Rx,
        ev_id = id_to_u32 sc (CanFrame_id sc (the (as_normal f))), ev_is_fd = False,
        ev_data = CanFrame_data sc (the (as_normal f))\<rparr>)
       (filter (\<lambda>(f, t). as_normal f \<noteq> None) (frames_read reads))"
  by (induction reads arbitrary: d)
    (auto simp: rx_classic_step_def frames_read_def publish_frame_def split: sum.splits option.splits)

text \<open>C31: The receive path publishes the frames it read, in order and no others, each as a receive event
  of its interface with the frame's identifier and payload; read errors publish nothing. It reads
  CAN-FD when that socket opens (and then marks every frame as CAN-FD), classic CAN when only that
  socket opens (and then drops frames that are not data frames), and publishes nothing when neither
  does.\<close>

theorem rx_publishes_frames_read:
  "published (run_one_iface_rx sc as_normal iface fd_reads classic_reads d) = published d @
     (case CanFdSocket_open sc iface (world d) of
        (Inr _, _) \<Rightarrow>
          map (\<lambda>(f, t). \<lparr>ev_ts_ms = now_ms t, ev_iface = iface, ev_dir = Rx,
              ev_id = id_to_u32 sc (CanFdFrame_id sc f), ev_is_fd = True, ev_data = CanFdFrame_data sc f\<rparr>)
            (frames_read fd_reads)
      | (Inl _, w) \<Rightarrow>
          (case CanSocket_open sc iface w of
             (Inr _, _) \<Rightarrow>
               map (\<lambda>(f, t). \<lparr>ev_ts_ms = now_ms t, ev_iface = iface, ev_dir = Rx,
                   ev_id = id_to_u32 sc (CanFrame_id sc (the (as_normal f))), ev_is_fd = False,
                   ev_data = CanFrame_data sc (the (as_normal f))\<rparr>)
                 (filter (\<lambda>(f, t). as_normal f \<noteq> None) (frames_read classic_reads))
           | (Inl _, _) \<Rightarrow> []))"
  by (auto simp: run_one_iface_rx_def published_fd_steps published_classic_steps split: prod.split sum.split)

end
