(* ===== verification/Discovery.thy ===== *)
theory Discovery
  imports Service "HOL-Library.List_Lexorder" "HOL-Library.Char_ord" "HOL-Library.Sublist"
begin

text \<open>
  Interface discovery: \<open>src/infra/iface_discovery_netlink.rs\<close> and the stub of
  \<open>src/infra/iface_discovery_dummy.rs\<close>. The netlink library is a parameter: whether a
  connection could be made, and the sequence of link messages or errors its stream yields, are
  inputs. Strings are ordered byte by byte, as in Rust.
\<close>

section \<open>Netlink\<close>

text \<open>Of a link attribute only the interface name matters.\<close>

datatype link_attribute = IfName string | OtherAttribute

definition is_can_like :: "string \<Rightarrow> bool" where
  "is_can_like name \<longleftrightarrow> prefix ''can'' name \<or> prefix ''vcan'' name \<or> prefix ''slcan'' name"

text \<open>The loop over the attributes: the first interface name, then \<open>break\<close>.\<close>

fun link_name :: "link_attribute list \<Rightarrow> string option" where
  "link_name [] = None"
| "link_name (IfName n # attrs) = Some n"
| "link_name (OtherAttribute # attrs) = link_name attrs"

text \<open>\<open>while let Some(msg) = links.try_next().await.context("netlink get links")?\<close>\<close>

fun collect_links :: "string list \<Rightarrow> (string, link_attribute list) result list
    \<Rightarrow> (string, string list) result" where
  "collect_links out [] = Inr out"
| "collect_links out (Inl e # msgs) = Inl ''netlink get links''"
| "collect_links out (Inr attrs # msgs) =
     collect_links
       (case link_name attrs of
          Some ifname \<Rightarrow> if is_can_like ifname then out @ [ifname] else out
        | None \<Rightarrow> out)
       msgs"

text \<open>\<open>dedup\<close> removes consecutive repetitions.\<close>

fun dedup :: "string list \<Rightarrow> string list" where
  "dedup [] = []"
| "dedup [x] = [x]"
| "dedup (x # y # xs) = (if x = y then dedup (y # xs) else x # dedup (y # xs))"

definition netlink_list_can_ifaces ::
    "(string, (string, link_attribute list) result list) result \<Rightarrow> (string, string list) result" where
  "netlink_list_can_ifaces connection =
     (case connection of
        Inl e \<Rightarrow> Inl ''create rtnetlink connection''
      | Inr msgs \<Rightarrow>
          (case collect_links [] msgs of
             Inl e \<Rightarrow> Inl e
           | Inr out \<Rightarrow> Inr (dedup (sort out))))"

section \<open>Stub\<close>

definition stub_list_can_ifaces :: "(string, string list) result" where
  "stub_list_can_ifaces = Inr [''vcan0'', ''can0'']"

section \<open>Lemmas\<close>

lemma collect_links_Inr:
  "collect_links out msgs = Inr r \<Longrightarrow>
     (\<forall>m\<in>set msgs. \<exists>attrs. m = Inr attrs)
     \<and> r = out @ filter is_can_like (List.map_filter (\<lambda>m. case m of Inl _ \<Rightarrow> None | Inr a \<Rightarrow> link_name a) msgs)"
  by (induction out msgs rule: collect_links.induct)
    (auto simp: map_filter_simps split: option.splits if_splits)

lemma collect_links_Inl:
  "collect_links out msgs = Inl e \<longleftrightarrow> e = ''netlink get links'' \<and> (\<exists>x. Inl x \<in> set msgs)"
  by (induction out msgs rule: collect_links.induct) auto

lemma set_dedup [simp]: "set (dedup xs) = set xs"
  by (induction xs rule: dedup.induct) auto

lemma dedup_sorted: "sorted xs \<Longrightarrow> sorted_wrt (<) (dedup xs)"
proof (induction xs rule: dedup.induct)
  case (3 x y xs)
  then show ?case by (auto simp: order.strict_iff_order)
qed simp_all

text \<open>The two ways discovery ends.\<close>

lemma netlink_Inl:
  assumes "netlink_list_can_ifaces connection = Inl e"
  shows "(\<exists>x. connection = Inl x) \<and> e = ''create rtnetlink connection''
    \<or> (\<exists>msgs x. connection = Inr msgs \<and> Inl x \<in> set msgs) \<and> e = ''netlink get links''"
  using assms
  by (auto simp: netlink_list_can_ifaces_def collect_links_Inl split: sum.splits)

lemma netlink_Inr:
  assumes "netlink_list_can_ifaces connection = Inr names"
  shows "\<exists>msgs. connection = Inr msgs \<and> sorted_wrt (<) names
    \<and> set names = {n. is_can_like n \<and> (\<exists>attrs. Inr attrs \<in> set msgs \<and> link_name attrs = Some n)}
    \<and> (\<forall>e. Inl e \<notin> set msgs)"
proof -
  obtain msgs out where m: "connection = Inr msgs" and c: "collect_links [] msgs = Inr out"
    and n: "names = dedup (sort out)"
    using assms by (auto simp: netlink_list_can_ifaces_def split: sum.splits)
  from collect_links_Inr [OF c] have "\<forall>m\<in>set msgs. \<exists>attrs. m = Inr attrs"
    and out: "out = filter is_can_like
      (List.map_filter (\<lambda>m. case m of Inl _ \<Rightarrow> None | Inr a \<Rightarrow> link_name a) msgs)" by auto
  then have "\<forall>e. Inl e \<notin> set msgs" by auto
  moreover have "set out = {n. is_can_like n \<and> (\<exists>attrs. Inr attrs \<in> set msgs \<and> link_name attrs = Some n)}"
    unfolding out by (force simp: List.map_filter_def split: sum.splits)
  ultimately show ?thesis using m n by (simp add: dedup_sorted)
qed

section \<open>Properties\<close>

text \<open>When the link dump completes, discovery returns the names of the links that look like CAN
  interfaces, each once and in increasing order, and nothing else; when the connection or the dump
  fails it returns the error of that step.\<close>

lemma netlink_discovery_exact:
  "case netlink_list_can_ifaces connection of
     Inr names \<Rightarrow>
       \<exists>msgs. connection = Inr msgs \<and> sorted_wrt (<) names
         \<and> set names = {n. is_can_like n \<and> (\<exists>attrs. Inr attrs \<in> set msgs \<and> link_name attrs = Some n)}
         \<and> (\<forall>e. Inl e \<notin> set msgs)
   | Inl e \<Rightarrow>
       (\<exists>x. connection = Inl x) \<and> e = ''create rtnetlink connection''
       \<or> (\<exists>msgs x. connection = Inr msgs \<and> Inl x \<in> set msgs) \<and> e = ''netlink get links''"
  by (cases "netlink_list_can_ifaces connection") (use netlink_Inl netlink_Inr in auto)

end
