(* ===== verification/Fake_Generator.thy ===== *)
theory Fake_Generator
  imports Service
begin

text \<open>
  The generator of \<open>src/infra/fake_generator.rs\<close>: the interfaces it keeps, and one tick of its
  loop, which bumps a \<open>u64\<close> counter and publishes one frame per interface. The clock reading of
  each frame is an input.
\<close>

definition fake_ifaces :: "string list \<Rightarrow> string list" where
  "fake_ifaces ifaces = filter (\<lambda>s. trim s \<noteq> []) ifaces"

lemma fake_ifaces_Nil [simp]: "fake_ifaces [] = []"
  by (simp add: fake_ifaces_def)

text \<open>What the spawned task starts with; without interfaces none is spawned.\<close>

definition start_fake_generator :: "string list \<Rightarrow> (string list \<times> u64) option" where
  "start_fake_generator ifaces =
     (let ifaces = fake_ifaces ifaces in if ifaces = [] then None else Some (ifaces, 0))"

definition fake_data :: "u64 \<Rightarrow> nat \<Rightarrow> bytes" where
  "fake_data counter idx =
     [ucast (counter AND 0xFF), ucast (drop_bit 8 counter AND 0xFF), ucast (drop_bit 16 counter AND 0xFF),
      ucast ((word_of_nat idx :: u64) AND 0xFF)]"

definition fake_event :: "u64 \<Rightarrow> int \<Rightarrow> nat \<times> string \<Rightarrow> frame_event" where
  "fake_event counter t entry =
     \<lparr>ev_ts_ms = now_ms t, ev_iface = snd entry, ev_dir = Rx, ev_id = 0x123, ev_is_fd = False,
      ev_data = fake_data counter (fst entry)\<rparr>"

text \<open>The body of the loop; \<open>clock\<close> gives the time at which the frame of an index is built.\<close>

definition fake_tick :: "string list \<Rightarrow> (nat \<Rightarrow> int) \<Rightarrow> u64 \<times> 'w bridge \<Rightarrow> u64 \<times> 'w bridge" where
  "fake_tick ifaces clock s =
     (let counter = fst s + 1
      in (counter,
          foldl (\<lambda>d (idx, iface). publish_frame (fake_event counter (clock idx) (idx, iface)) d)
            (snd s) (enumerate 0 ifaces)))"

lemma foldl_publish:
  "published (foldl (\<lambda>d x. publish_frame (f x) d) d xs) = published d @ map f xs"
  by (induction xs arbitrary: d) (simp_all add: publish_frame_def)

lemma ucast_and_255: "(ucast ((w :: u64) AND 0xFF) :: u8) = ucast w"
proof -
  have "(0xFF :: u64) = mask 8" by (simp add: mask_eq_decr_exp)
  then have "w AND 0xFF = take_bit 8 w" by (simp only: take_bit_eq_mask)
  then show ?thesis by (simp add: bit_eq_iff bit_simps)
qed

lemma fake_data_le_bytes: "fake_data counter idx = le_bytes 3 counter @ [ucast (word_of_nat idx :: u64)]"
  unfolding fake_data_def ucast_and_255 by (simp add: eval_nat_numeral)

text \<open>A tick publishes exactly one classic receive frame per interface, in the order of the list, with
  identifier 0x123 and a four-byte payload from which the new counter modulo \<open>2 ^ 24\<close> and the
  interface index modulo 256 can be read back.\<close>

lemma fake_tick_publishes:
  assumes "fake_tick ifaces clock (counter, d) = (counter', d')"
  shows "counter' = counter + 1 \<and>
    (\<exists>evs. published d' = published d @ evs \<and> map ev_iface evs = ifaces
      \<and> (\<forall>idx < length ifaces.
           let ev = evs ! idx in
             ev_dir ev = Rx \<and> ev_id ev = 0x123 \<and> \<not> ev_is_fd ev \<and> ev_ts_ms ev = now_ms (clock idx)
             \<and> length (ev_data ev) = 4
             \<and> from_le_bytes (take 3 (ev_data ev)) = take_bit 24 counter'
             \<and> unat (ev_data ev ! 3) = idx mod 256))"
proof -
  let ?evs = "map (\<lambda>(idx, iface). fake_event (counter + 1) (clock idx) (idx, iface)) (enumerate 0 ifaces)"
  have d': "published d' = published d @ ?evs" and c: "counter' = counter + 1"
    using assms foldl_publish [of "\<lambda>(idx, iface). fake_event (counter + 1) (clock idx) (idx, iface)" d
        "enumerate 0 ifaces"]
    by (auto simp: fake_tick_def Let_def case_prod_unfold)
  have i: "map ev_iface ?evs = ifaces"
    by (simp add: fake_event_def comp_def case_prod_unfold)
  have "?evs ! idx = fake_event (counter + 1) (clock idx) (idx, ifaces ! idx)" if "idx < length ifaces" for idx
    using that by (simp add: nth_enumerate_eq)
  moreover have "from_le_bytes (take 3 (fake_data counter' idx)) = take_bit 24 counter'" for idx
    by (simp add: fake_data_le_bytes from_le_bytes_le_bytes)
  moreover have "unat (fake_data counter' idx ! 3) = idx mod 256" for idx
    by (simp add: fake_data_le_bytes nth_append unsigned_ucast_eq unat_of_nat take_bit_eq_mod mod_mod_cancel)
  ultimately show ?thesis
    using d' i c by (intro conjI exI [of _ ?evs]) (simp_all add: fake_event_def fake_data_def Let_def)
qed

end
