(* ===== verification/Frame_Log.thy ===== *)
theory Frame_Log
  imports Service
begin

text \<open>
  What \<open>log_frame\<close> of \<open>src/domain/frame.rs\<close> hands to the log: a debug record with the derived \<open>Debug\<close>
  text of the event, and an information record with its fields. What becomes of the records is up to
  \<open>tracing\<close>.
\<close>

section \<open>Definitions\<close>

text \<open>\<open>{:X}\<close>: upper-case hexadecimal without leading zeros.\<close>

definition upper_digit :: "nat \<Rightarrow> char" where
  "upper_digit n = ''0123456789ABCDEF'' ! n"

fun show_upper_hex :: "nat \<Rightarrow> string" where
  "show_upper_hex n =
     (if n < 16 then [upper_digit n] else show_upper_hex (n div 16) @ [upper_digit (n mod 16)])"

declare show_upper_hex.simps [simp del]

definition debug_frame_event :: "(string \<Rightarrow> string) \<Rightarrow> frame_event \<Rightarrow> string" where
  "debug_frame_event dbg_str ev =
     debug_struct ''FrameEvent''
       [(''ts_ms'', show_word (ev_ts_ms ev)), (''iface'', dbg_str (ev_iface ev)),
        (''dir'', case ev_dir ev of Rx \<Rightarrow> ''Rx'' | Tx \<Rightarrow> ''Tx''), (''id'', show_word (ev_id ev)),
        (''is_fd'', show_bool (ev_is_fd ev)), (''data'', debug_vec show_word (ev_data ev))]"

datatype log_record = Debug string | Info string "(string \<times> string) list"

definition log_frame :: "(string \<Rightarrow> string) \<Rightarrow> frame_event \<Rightarrow> log_record list" where
  "log_frame dbg_str ev =
     [Debug (''CAN Frame event: '' @ debug_frame_event dbg_str ev),
      Info ''can_frame''
        [(''iface'', ev_iface ev), (''dir'', dir_text (ev_dir ev)),
         (''id'', ''0x'' @ show_upper_hex (unat (ev_id ev))), (''dlc'', show_nat (length (ev_data ev))),
         (''data'', hex_lower (ev_data ev)), (''is_fd'', show_bool (ev_is_fd ev))]]"

section \<open>The record identifies the frame\<close>

lemma upper_digit_inj: "m < 16 \<Longrightarrow> n < 16 \<Longrightarrow> upper_digit m = upper_digit n \<Longrightarrow> m = n"
  unfolding upper_digit_def by (subst (asm) nth_eq_iff_index_eq) simp_all

lemma show_upper_hex_nonempty: "show_upper_hex n \<noteq> []"
  by (subst show_upper_hex.simps) simp

lemma show_upper_hex_inj: "show_upper_hex m = show_upper_hex n \<Longrightarrow> m = n"
proof (induction m arbitrary: n rule: show_upper_hex.induct)
  case (1 m)
  show ?case
  proof (cases "m < 16 \<or> n < 16")
    case True
    with 1(2) show ?thesis
      by (auto simp: show_upper_hex.simps [of m] show_upper_hex.simps [of n] show_upper_hex_nonempty
          show_upper_hex_nonempty [symmetric]
          dest: upper_digit_inj split: if_splits)
  next
    case False
    with 1(2) have "show_upper_hex (m div 16) = show_upper_hex (n div 16)" "upper_digit (m mod 16) = upper_digit (n mod 16)"
      by (simp_all add: show_upper_hex.simps [of m] show_upper_hex.simps [of n])
    with False 1(1) [of "n div 16"] upper_digit_inj [of "m mod 16" "n mod 16"]
    have "m div 16 = n div 16" "m mod 16 = n mod 16" by simp_all
    then show ?thesis by (metis div_mult_mod_eq)
  qed
qed

lemma hex_lower_inj: "hex_lower xs = hex_lower ys \<Longrightarrow> xs = ys"
  by (metis hex_to_bytes_hex_lower sum.inject(2))

text \<open>Two frames with the same information record differ at most in their time stamps.\<close>

lemma log_frame_identifies:
  assumes "log_frame dbg_str ev ! 1 = log_frame dbg_str ev' ! 1"
  shows "ev\<lparr>ev_ts_ms := t\<rparr> = ev'\<lparr>ev_ts_ms := t\<rparr>"
proof -
  have "dir_text x = dir_text y \<Longrightarrow> x = y" for x y by (cases x; cases y) simp_all
  moreover have "show_bool x = show_bool y \<Longrightarrow> x = y" for x y by (cases x; cases y) (simp_all add: show_bool_def)
  ultimately show ?thesis
    using assms by (intro frame_event.equality)
      (auto simp: log_frame_def dest!: show_upper_hex_inj hex_lower_inj intro: unsigned_word_eqI)
qed

end
