(* ===== verification/Daemon.thy ===== *)
theory Daemon
  imports Socketcan Discovery Fake_Generator Frame_Log
begin

text \<open>
  The composition root, \<open>src/main.rs\<close>: the service on top of netlink discovery and the SocketCAN
  transmit adapter, and what is started on the interfaces found at startup. The netlink connection,
  the SocketCAN library and the clock are parameters.
\<close>

section \<open>Wiring\<close>

definition daemon_ports :: "('sid, 'eid, 'cf, 'ff, 'cs, 'fs, 'w) socketcan
    \<Rightarrow> ('w \<Rightarrow> (string, (string, link_attribute list) result list) result \<times> 'w) \<Rightarrow> ('w \<Rightarrow> int) \<Rightarrow> 'w ports" where
  "daemon_ports sc rtnetlink clock =
     \<lparr>list_can_ifaces = (\<lambda>w. case rtnetlink w of (connection, w') \<Rightarrow> (netlink_list_can_ifaces connection, w')),
      can_send = socketcan_send sc,
      system_time = clock\<rparr>"

text \<open>
  The interfaces a receiver is started on, and the state of the fake generator if it is asked for and
  has interfaces. A failed discovery leaves the daemon running with no interface.
\<close>

record started =
  receivers :: "string list"
  generator :: "(string list \<times> u64) option"

definition startup :: "'w ports \<Rightarrow> bool \<Rightarrow> 'w \<Rightarrow> started \<times> 'w" where
  "startup ports fake w =
     (let (found, w') = list_can_ifaces ports w;
          ifaces = (case found of Inr v \<Rightarrow> v | Inl e \<Rightarrow> [])
      in (\<lparr>receivers = rx_ifaces ifaces,
           generator = (if fake then start_fake_generator ifaces else None)\<rparr>, w'))"

section \<open>Properties\<close>

text \<open>C7: End to end, a positive acknowledgement of the assembled daemon means what it says: the payload was
  valid hexadecimal, identifier, length and flags are within the limits of CAN, the blocking send of
  exactly that frame succeeded, and exactly one transmit event for it was published.\<close>

theorem acknowledged_frame_was_sent:
  assumes "spawn_documented sc"
    and "handle (daemon_ports sc rtnetlink clock) (ClientRequest.SendFrame iface i is_fd brs esi data_hex) d
      = (DaemonResponse.SendAck True e, d')"
  shows "\<exists>data. hex_to_bytes data_hex = Inr data
    \<and> send_blocking sc iface i is_fd brs esi data (world d) = (Inr (), world d')
    \<and> within_can_limits i is_fd brs esi data
    \<and> published d' = published d @
        [\<lparr>ev_ts_ms = Service.now_ms (clock (world d')), ev_iface = iface, ev_dir = Tx, ev_id = i, ev_is_fd = is_fd, ev_data = data\<rparr>]"
proof -
  obtain data where h: "hex_to_bytes data_hex = Inr data"
    and s: "socketcan_send sc iface i is_fd brs esi data (world d) = (Inr (), world d')"
    and p: "published d' = published d @
        [\<lparr>ev_ts_ms = Service.now_ms (clock (world d')), ev_iface = iface, ev_dir = Tx, ev_id = i, ev_is_fd = is_fd, ev_data = data\<rparr>]"
    using assms(2) by (auto simp: daemon_ports_def publish_frame_def split: sum.splits prod.splits)
  have b: "send_blocking sc iface i is_fd brs esi data (world d) = (Inr (), world d')"
    by (rule socketcan_send_Inr [OF s assms(1)])
  with h p accepted_within_limits [OF b] show ?thesis by blast
qed

theorem acknowledged_frame_was_sent_witness:
  "\<exists>d'. handle (daemon_ports recording_socketcan (\<lambda>w. (Inr [], w)) (\<lambda>_. 0))
      (ClientRequest.SendFrame ''can0'' 0x123 False False False ''0aFF'') \<lparr>world = [], published = []\<rparr>
      = (DaemonResponse.SendAck True None, d')
    \<and> within_can_limits 0x123 False False False [0x0A, 0xFF]
    \<and> world d' = [(''can0'', Standard 0x123, [0x0A, 0xFF])]"
proof -
  have hex: "hex_to_bytes ''0aFF'' = Inr [0x0A, 0xFF]" by code_simp
  let ?d = "\<lparr>world = [(''can0'', Standard 0x123, [0x0A, 0xFF])],
    published = [\<lparr>ev_ts_ms = 0, ev_iface = ''can0'', ev_dir = Tx, ev_id = 0x123, ev_is_fd = False, ev_data = [0x0A, 0xFF]\<rparr>]\<rparr>"
  have h: "handle (daemon_ports recording_socketcan (\<lambda>w. (Inr [], w)) (\<lambda>_. 0))
      (ClientRequest.SendFrame ''can0'' 0x123 False False False ''0aFF'') \<lparr>world = [], published = []\<rparr>
      = (DaemonResponse.SendAck True None, ?d)"
    by (simp add: hex daemon_ports_def socketcan_send_def send_blocking_def validate_request_def make_id_def
        send_classic_def recording_socketcan_def publish_frame_def Service.now_ms_def)
  from acknowledged_frame_was_sent [OF recording_spawn h] h hex show ?thesis by auto
qed

text \<open>
  A name that trimming leaves as it is, and connections all of whose links have such names. The
  receivers trim the names they are given; for an ordinary name this does nothing.
\<close>

definition plain_name :: "string \<Rightarrow> bool" where
  "plain_name n \<longleftrightarrow> utf8_ok n \<and> list_all (\<lambda>c. \<not> is_whitespace c) (str_chars n)"

definition plain_names :: "(string, (string, link_attribute list) result list) result \<Rightarrow> bool" where
  "plain_names connection =
     (case connection of
        Inl e \<Rightarrow> True
      | Inr msgs \<Rightarrow>
          list_all (\<lambda>m. case m of
             Inl e \<Rightarrow> True
           | Inr attrs \<Rightarrow> (case link_name attrs of None \<Rightarrow> True | Some n \<Rightarrow> plain_name n)) msgs)"

lemma trim_plain: "plain_name n \<Longrightarrow> trim n = n"
proof -
  have "dropWhile is_whitespace cs = cs" if "list_all (\<lambda>c. \<not> is_whitespace c) cs" for cs
    using that by (cases cs) auto
  note this [of "str_chars n"] this [of "rev (str_chars n)"]
  then show "plain_name n \<Longrightarrow> trim n = n" by (simp add: plain_name_def trim_def collect_chars_str_chars)
qed

lemma plain_names_kept:
  assumes "\<forall>n\<in>set names. is_can_like n \<and> plain_name n"
  shows "rx_ifaces names = names" and "fake_ifaces names = names"
proof -
  have "trim n = n \<and> n \<noteq> []" if "n \<in> set names" for n
    using assms that trim_plain by (auto simp: is_can_like_def)
  then show "rx_ifaces names = names" and "fake_ifaces names = names"
    by (auto simp: rx_ifaces_def fake_ifaces_def filter_id_conv map_idI)
qed

lemma plain_names_plain:
  "plain_names (Inr msgs) \<Longrightarrow> Inr attrs \<in> set msgs \<Longrightarrow> link_name attrs = Some n \<Longrightarrow> plain_name n"
  by (fastforce simp: plain_names_def list_all_iff)

text \<open>The names discovery returns.\<close>

definition can_links :: "(string, (string, link_attribute list) result list) result \<Rightarrow> string set" where
  "can_links connection =
     (case connection of
        Inr msgs \<Rightarrow> if list_ex (\<lambda>m. case m of Inl e \<Rightarrow> True | Inr a \<Rightarrow> False) msgs then {}
          else {n. is_can_like n \<and> (\<exists>attrs. Inr attrs \<in> set msgs \<and> link_name attrs = Some n)}
      | Inl e \<Rightarrow> {})"

lemma discovered_names:
  "\<exists>names. (case netlink_list_can_ifaces connection of Inr v \<Rightarrow> v | Inl e \<Rightarrow> []) = names
     \<and> sorted_wrt (<) names \<and> set names = can_links connection"
proof (cases "netlink_list_can_ifaces connection")
  case (Inl e)
  with netlink_Inl [OF Inl] show ?thesis by (auto simp: can_links_def list_ex_iff split: sum.split)
next
  case (Inr names)
  from netlink_Inr [OF Inr] obtain msgs where m: "connection = Inr msgs" "sorted_wrt (<) names"
    "set names = {n. is_can_like n \<and> (\<exists>attrs. Inr attrs \<in> set msgs \<and> link_name attrs = Some n)}"
    "\<forall>e. Inl e \<notin> set msgs" by blast
  then have "\<not> list_ex (\<lambda>m. case m of Inl e \<Rightarrow> True | Inr a \<Rightarrow> False) msgs"
    by (auto simp: list_ex_iff split: sum.splits)
  with m Inr show ?thesis by (simp add: can_links_def)
qed

lemma plain_can_links:
  "plain_names connection \<Longrightarrow> n \<in> can_links connection \<Longrightarrow> is_can_like n \<and> plain_name n"
  using plain_names_plain by (auto simp: can_links_def split: sum.splits if_splits)

text \<open>C32: At startup a receiver is started on every link that looks like a CAN interface and on nothing else,
  each once and in increasing order of the names found, with the white space around a name removed; a
  failed discovery starts none. Where no name has white space the receivers are exactly these links.
  With \<open>--fake\<close> the generator runs on the same links, if there are any.\<close>

theorem startup_receives_on_can_links:
  assumes "rtnetlink w = (connection, w')"
  shows "\<exists>st names. startup (daemon_ports sc rtnetlink clock) fake w = (st, w')
    \<and> sorted_wrt (<) names \<and> set names = can_links connection
    \<and> receivers st = filter (\<lambda>n. n \<noteq> []) (map trim names)
    \<and> generator st = (let ifaces = filter (\<lambda>n. trim n \<noteq> []) names
         in if fake \<and> ifaces \<noteq> [] then Some (ifaces, 0) else None)
    \<and> (plain_names connection \<longrightarrow> sorted_wrt (<) (receivers st) \<and> set (receivers st) = can_links connection
         \<and> generator st = (if fake \<and> receivers st \<noteq> [] then Some (receivers st, 0) else None))"
proof -
  obtain names where n: "(case netlink_list_can_ifaces connection of Inr v \<Rightarrow> v | Inl e \<Rightarrow> []) = names"
    "sorted_wrt (<) names" "set names = can_links connection"
    using discovered_names [of connection] by blast
  have kept: "rx_ifaces names = names" "fake_ifaces names = names" if "plain_names connection"
    using plain_names_kept [of names] plain_can_links [OF that] n(3) by simp_all
  show ?thesis
    using n assms kept
    by (intro exI [of _ "fst (startup (daemon_ports sc rtnetlink clock) fake w)"] exI [of _ names])
      (auto simp: startup_def start_fake_generator_def Let_def daemon_ports_def rx_ifaces_def fake_ifaces_def)
qed

theorem startup_receives_on_can_links_witness:
  "\<exists>st. startup (daemon_ports recording_socketcan
        (\<lambda>w. (Inr [Inr [IfName ''vcan0''], Inr [OtherAttribute, IfName ''eth0'']], w)) (\<lambda>_. 0)) True [] = (st, [])
     \<and> set (receivers st) = {''vcan0''}"
proof -
  let ?msgs = "[Inr [IfName ''vcan0''], Inr [OtherAttribute, IfName ''eth0'']]"
  have doc: "plain_names (Inr ?msgs)" by code_simp
  have "can_links (Inr ?msgs) = {''vcan0''}"
    by (auto simp: can_links_def is_can_like_def)
  with doc startup_receives_on_can_links [of "\<lambda>w. (Inr ?msgs, w)" "[]", OF refl, of recording_socketcan "\<lambda>_. 0" True]
  show ?thesis by auto
qed

end
