(* ===== verification/Transport_Grpc.thy ===== *)
theory Transport_Grpc
  imports Service
begin

text \<open>
  The gRPC transport, \<open>src/infra/transport_grpc.rs\<close>, with the messages of
  \<open>proto/can_bridge.proto\<close>. A call is a function of the bridge; its status is the
  error value. A subscription is the stream its items are filtered to; what the broadcast receiver
  yields is an input.
\<close>

section \<open>Messages\<close>

datatype status = Internal string

record pb_hello_ack =
  ack_version :: string
  ack_server_name :: string
  ack_features :: "string list"

record pb_send_ack =
  ack_ok :: bool
  ack_error :: string

record pb_frame_event =
  pb_ts_ms :: u64
  pb_iface :: string
  pb_dir :: string
  pb_id :: u32
  pb_is_fd :: bool
  pb_data_hex :: string

text \<open>\<open>env!("CARGO_PKG_VERSION")\<close>, the version in \<open>Cargo.toml\<close>.\<close>

definition cargo_pkg_version :: string where
  "cargo_pkg_version = ''0.1.1''"

section \<open>Calls\<close>

definition grpc_hello :: "string \<Rightarrow> string \<Rightarrow> (status, pb_hello_ack) result" where
  "grpc_hello client protocol =
     Inr \<lparr>ack_version = cargo_pkg_version, ack_server_name = ''can-bridge-daemon'',
          ack_features = [''grpc'', ''ws-jsonl'', ''ws-binary'', ''tcp'']\<rparr>"

definition grpc_ping :: "'w ports \<Rightarrow> (string \<Rightarrow> string) \<Rightarrow> u64 \<Rightarrow> 'w bridge \<Rightarrow> (status, u64) result \<times> 'w bridge" where
  "grpc_ping ports dbg_str i d =
     (let (resp, d') = handle ports (ClientRequest.Ping i) d
      in (case resp of
            DaemonResponse.Pong n \<Rightarrow> Inr n
          | DaemonResponse.Error message \<Rightarrow> Inl (Internal message)
          | other \<Rightarrow> Inl (Internal (''unexpected response for ping: '' @ debug_response dbg_str other)), d'))"

definition grpc_list_ifaces :: "'w ports \<Rightarrow> (string \<Rightarrow> string) \<Rightarrow> 'w bridge
    \<Rightarrow> (status, string list) result \<times> 'w bridge" where
  "grpc_list_ifaces ports dbg_str d =
     (let (resp, d') = handle ports ClientRequest.ListIfaces d
      in (case resp of
            DaemonResponse.Ifaces items \<Rightarrow> Inr items
          | DaemonResponse.Error message \<Rightarrow> Inl (Internal message)
          | other \<Rightarrow> Inl (Internal (''unexpected response for list_ifaces: '' @ debug_response dbg_str other)), d'))"

definition grpc_send_frame :: "'w ports \<Rightarrow> (string \<Rightarrow> string) \<Rightarrow> string \<Rightarrow> u32 \<Rightarrow> bool \<Rightarrow> bool \<Rightarrow> bool \<Rightarrow> string
    \<Rightarrow> 'w bridge \<Rightarrow> (status, pb_send_ack) result \<times> 'w bridge" where
  "grpc_send_frame ports dbg_str iface i is_fd brs esi data_hex d =
     (let (resp, d') = handle ports (ClientRequest.SendFrame iface i is_fd brs esi data_hex) d
      in (case resp of
            DaemonResponse.SendAck ok error_message \<Rightarrow>
              Inr \<lparr>ack_ok = ok, ack_error = (case error_message of None \<Rightarrow> [] | Some e \<Rightarrow> e)\<rparr>
          | DaemonResponse.Error message \<Rightarrow> Inr \<lparr>ack_ok = False, ack_error = message\<rparr>
          | other \<Rightarrow> Inl (Internal (''unexpected response for send_frame: '' @ debug_response dbg_str other)), d'))"

section \<open>Subscriptions\<close>

definition hex_lower :: "bytes \<Rightarrow> string" where
  "hex_lower bytes =
     (let out = foldl (\<lambda>out b. (out @ [LUT ! unat (drop_bit 4 b)]) @ [LUT ! unat (b AND 0x0F)]) [] bytes
      in case from_utf8 out of None \<Rightarrow> '''' | Some s \<Rightarrow> s)"

lemma pb_hex_lower_eq [simp]: "hex_lower bs = Frame.hex_lower bs"
  by (simp add: hex_lower_def Frame.hex_lower_def)

definition domain_frame_to_pb :: "frame_event \<Rightarrow> pb_frame_event" where
  "domain_frame_to_pb ev =
     \<lparr>pb_ts_ms = ev_ts_ms ev, pb_iface = ev_iface ev,
      pb_dir = (case ev_dir ev of Rx \<Rightarrow> ''rx'' | Tx \<Rightarrow> ''tx''),
      pb_id = ev_id ev, pb_is_fd = ev_is_fd ev, pb_data_hex = hex_lower (ev_data ev)\<rparr>"

text \<open>An item of the broadcast stream: a frame, or the report that frames were missed.\<close>

datatype bus_item = BusFrame frame_event | BusMissed u64

definition subscribe_item :: "string set \<Rightarrow> bus_item \<Rightarrow> (status, pb_frame_event) result option" where
  "subscribe_item iface_set item =
     (case item of
        BusFrame ev \<Rightarrow> if ev_iface ev \<in> iface_set then Some (Inr (domain_frame_to_pb ev)) else None
      | BusMissed n \<Rightarrow> None)"

definition grpc_subscribe :: "string list \<Rightarrow> bus_item list \<Rightarrow> (status, pb_frame_event) result list" where
  "grpc_subscribe ifaces items =
     (let iface_set = set ifaces in List.map_filter (subscribe_item iface_set) items)"

section \<open>Properties\<close>

text \<open>C35: The gRPC calls report what the service did, and the branches for a response of the wrong kind are
  never taken: a ping returns its id and changes nothing, listing returns the interfaces or the service's
  error, sending always returns an acknowledgement, which is positive exactly if one transmit event was
  published.\<close>

theorem grpc_calls_report_service:
  "grpc_ping ports dbg_str i d = (Inr i, d)
   \<and> (case list_can_ifaces ports (world d) of
        (Inr items, w) \<Rightarrow> grpc_list_ifaces ports dbg_str d = (Inr items, d\<lparr>world := w\<rparr>)
      | (Inl e, w) \<Rightarrow> grpc_list_ifaces ports dbg_str d = (Inl (Internal (''list_ifaces failed: '' @ e)), d\<lparr>world := w\<rparr>))
   \<and> (\<exists>ack d'. grpc_send_frame ports dbg_str iface n is_fd brs esi data_hex d = (Inr ack, d')
        \<and> (ack_ok ack \<longleftrightarrow> (\<exists>ev. published d' = published d @ [ev] \<and> ev_dir ev = Tx \<and> ev_iface ev = iface
             \<and> ev_id ev = n \<and> hex_to_bytes data_hex = Inr (ev_data ev)))
        \<and> (\<not> ack_ok ack \<longleftrightarrow> published d' = published d))"
proof (intro conjI)
  show "grpc_ping ports dbg_str i d = (Inr i, d)" by (simp add: grpc_ping_def)
  show "case list_can_ifaces ports (world d) of
        (Inr items, w) \<Rightarrow> grpc_list_ifaces ports dbg_str d = (Inr items, d\<lparr>world := w\<rparr>)
      | (Inl e, w) \<Rightarrow> grpc_list_ifaces ports dbg_str d = (Inl (Internal (''list_ifaces failed: '' @ e)), d\<lparr>world := w\<rparr>)"
    by (auto simp: grpc_list_ifaces_def split: prod.split sum.split)
  show "\<exists>ack d'. grpc_send_frame ports dbg_str iface n is_fd brs esi data_hex d = (Inr ack, d')
        \<and> (ack_ok ack \<longleftrightarrow> (\<exists>ev. published d' = published d @ [ev] \<and> ev_dir ev = Tx \<and> ev_iface ev = iface
             \<and> ev_id ev = n \<and> hex_to_bytes data_hex = Inr (ev_data ev)))
        \<and> (\<not> ack_ok ack \<longleftrightarrow> published d' = published d)"
    by (cases "hex_to_bytes data_hex")
      (auto simp: grpc_send_frame_def publish_frame_def split: prod.split sum.split)
qed

text \<open>A gRPC subscription streams exactly the frames of the requested interfaces, in bus order and never an
  error, lagging included; each message carries the frame's fields, and decoding its hexadecimal text
  gives the payload back.\<close>

lemma grpc_subscribe_streams_requested:
  "grpc_subscribe ifaces items =
     map (\<lambda>ev. Inr (domain_frame_to_pb ev))
       (filter (\<lambda>ev. ev_iface ev \<in> set ifaces)
          (List.map_filter (\<lambda>item. case item of BusFrame ev \<Rightarrow> Some ev | BusMissed n \<Rightarrow> None) items))
   \<and> hex_to_bytes (pb_data_hex (domain_frame_to_pb ev)) = Inr (ev_data ev)
   \<and> pb_iface (domain_frame_to_pb ev) = ev_iface ev \<and> pb_id (domain_frame_to_pb ev) = ev_id ev
   \<and> (pb_dir (domain_frame_to_pb ev) = ''rx'' \<longleftrightarrow> ev_dir ev = Rx)"
proof (intro conjI)
  show "grpc_subscribe ifaces items =
     map (\<lambda>ev. Inr (domain_frame_to_pb ev))
       (filter (\<lambda>ev. ev_iface ev \<in> set ifaces)
          (List.map_filter (\<lambda>item. case item of BusFrame ev \<Rightarrow> Some ev | BusMissed n \<Rightarrow> None) items))"
    by (induction items) (auto simp: grpc_subscribe_def subscribe_item_def map_filter_simps split: bus_item.split)
qed (auto simp: domain_frame_to_pb_def split: Direction.split)

end
