(* ===== verification/Frame_Bus.thy ===== *)
theory Frame_Bus
  imports Service Delivery
begin

text \<open>
  The frame bus between the service and its subscribers: \<open>BridgeService::new\<close> and
  \<open>subscribe_frames\<close> of \<open>src/app/service.rs\<close>. The channel is \<open>tokio::sync::broadcast\<close>, a library: how
  a receiver gets its next event is the parameter \<open>recv\<close>, from the events published so far and the
  receiver's place among them to the result and its next place. \<open>bus_documented\<close> is what the
  library's documentation says of it. Of a receiver the model also keeps where it began, what it
  got and how much it missed.
\<close>

definition FRAMES_CAPACITY :: nat where
  "FRAMES_CAPACITY = 1024"

definition new_bridge :: "'w \<Rightarrow> 'w bridge" where
  "new_bridge w = \<lparr>world = w, published = []\<rparr>"

text \<open>\<open>Empty\<close>: the receive has to wait.\<close>

datatype bus_result = Received frame_event | Lagged u64 | Empty

type_synonym bus_recv = "frame_event list \<Rightarrow> nat \<Rightarrow> bus_result \<times> nat"

text \<open>
  Events come in the order they were sent and one at a time. A receiver with more than the capacity
  still to come is told how many it lost, and goes on with a later event.
\<close>

definition bus_documented :: "bus_recv \<Rightarrow> bool" where
  "bus_documented recv \<longleftrightarrow> (\<forall>events place. place \<le> length events \<longrightarrow>
     (case recv events place of
        (Received ev, place') \<Rightarrow> place < length events \<and> ev = events ! place \<and> place' = Suc place
      | (Lagged n, place') \<Rightarrow> FRAMES_CAPACITY < length events - place \<and> place < place' \<and> place' \<le> length events
          \<and> n = word_of_nat (place' - place)
      | (Empty, place') \<Rightarrow> place = length events \<and> place' = place))"

record receiver =
  since :: nat
  cursor :: nat
  seen :: "frame_event list"
  missed :: nat

definition subscribe_frames :: "'w bridge \<Rightarrow> receiver" where
  "subscribe_frames d = \<lparr>since = length (published d), cursor = length (published d), seen = [], missed = 0\<rparr>"

fun received :: "bus_result \<Rightarrow> frame_event list" where
  "received (Received ev) = [ev]"
| "received _ = []"

definition receive :: "bus_recv \<Rightarrow> 'w bridge \<Rightarrow> receiver \<Rightarrow> bus_result \<times> receiver" where
  "receive recv d r =
     (let (res, place') = recv (published d) (cursor r)
      in (res, r\<lparr>cursor := place', seen := seen r @ received res,
                 missed := missed r + (case res of Lagged n \<Rightarrow> place' - cursor r | _ \<Rightarrow> 0)\<rparr>))"

section \<open>What a receiver has got\<close>

text \<open>The events published between where a receiver began and where it is.\<close>

definition offered :: "frame_event list \<Rightarrow> receiver \<Rightarrow> frame_event list" where
  "offered events r = take (cursor r - since r) (drop (since r) events)"

definition receiver_ok :: "frame_event list \<Rightarrow> receiver \<Rightarrow> bool" where
  "receiver_ok events r \<longleftrightarrow> since r \<le> cursor r \<and> cursor r \<le> length events
     \<and> subseq (seen r) (offered events r) \<and> length (seen r) + missed r = length (offered events r)"

lemma length_offered: "since r \<le> cursor r \<Longrightarrow> cursor r \<le> length events \<Longrightarrow> length (offered events r) = cursor r - since r"
  by (simp add: offered_def)

lemma receiver_ok_subscribe: "receiver_ok (published d) (subscribe_frames d)"
  by (simp add: receiver_ok_def subscribe_frames_def offered_def)

lemma receiver_ok_publish: "receiver_ok events r \<Longrightarrow> receiver_ok (events @ later) r"
  by (auto simp: receiver_ok_def offered_def)

lemma receiver_ok_complete: "receiver_ok events r \<Longrightarrow> missed r = 0 \<Longrightarrow> seen r = offered events r"
  by (simp add: receiver_ok_def subseq_same_length)

lemma offered_advance:
  assumes "since r' = since r" and "since r \<le> cursor r" and "cursor r \<le> cursor r'"
  shows "offered events r' = offered events r @ take (cursor r' - cursor r) (drop (cursor r) events)"
proof -
  have "cursor r' - since r = (cursor r - since r) + (cursor r' - cursor r)" using assms by simp
  then have "offered events r' = take ((cursor r - since r) + (cursor r' - cursor r)) (drop (since r) events)"
    using assms(1) by (simp add: offered_def)
  then show ?thesis using assms(2) by (simp only: take_add offered_def drop_drop) simp
qed

lemma receiver_ok_receive:
  assumes "bus_documented recv" and "receiver_ok (published d) r" and "receive recv d r = (res, r')"
  shows "receiver_ok (published d) r'" and "seen r' = seen r @ received res"
    and "missed r' \<noteq> missed r \<Longrightarrow> FRAMES_CAPACITY < length (published d) - cursor r"
proof -
  obtain place' where rc: "recv (published d) (cursor r) = (res, place')"
    and r': "r' = r\<lparr>cursor := place', seen := seen r @ received res,
      missed := missed r + (case res of Lagged n \<Rightarrow> place' - cursor r | _ \<Rightarrow> 0)\<rparr>"
    using assms(3) by (auto simp: receive_def split: prod.splits)
  have ok: "since r \<le> cursor r" "cursor r \<le> length (published d)" "subseq (seen r) (offered (published d) r)"
    "length (seen r) + missed r = length (offered (published d) r)"
    using assms(2) by (simp_all add: receiver_ok_def)
  have doc: "case res of
      Received ev \<Rightarrow> cursor r < length (published d) \<and> ev = published d ! cursor r \<and> place' = Suc (cursor r)
    | Lagged n \<Rightarrow> FRAMES_CAPACITY < length (published d) - cursor r \<and> cursor r < place' \<and> place' \<le> length (published d)
        \<and> n = word_of_nat (place' - cursor r)
    | Empty \<Rightarrow> cursor r = length (published d) \<and> place' = cursor r"
    using assms(1) ok(2) rc unfolding bus_documented_def by (fastforce split: bus_result.splits)
  show "seen r' = seen r @ received res" by (simp add: r')
  show "missed r' \<noteq> missed r \<Longrightarrow> FRAMES_CAPACITY < length (published d) - cursor r"
    using doc by (auto simp: r' split: bus_result.splits)
  have "cursor r \<le> cursor r'" using doc by (auto simp: r' split: bus_result.splits)
  with ok(1) have adv: "offered (published d) r'
      = offered (published d) r @ take (cursor r' - cursor r) (drop (cursor r) (published d))"
    by (intro offered_advance) (simp_all add: r')
  show "receiver_ok (published d) r'"
  proof (cases res)
    case (Received ev)
    with doc have "take (place' - cursor r) (drop (cursor r) (published d)) = [ev]"
      by (simp add: take_Suc_conv_app_nth)
    with Received doc ok show ?thesis
      unfolding receiver_ok_def adv by (simp add: r' list_emb_append_mono)
  next
    case (Lagged n)
    with doc ok show ?thesis
      unfolding receiver_ok_def adv by (auto simp: r' min_def intro: subseq_rev_drop_many)
  next
    case Empty
    with doc ok show ?thesis unfolding receiver_ok_def adv by (simp add: r')
  qed
qed

section \<open>An instance\<close>

text \<open>A channel that keeps exactly the last \<open>FRAMES_CAPACITY\<close> events behaves as documented.\<close>

definition ring_recv :: bus_recv where
  "ring_recv events place =
     (if FRAMES_CAPACITY < length events - place
      then (Lagged (word_of_nat (length events - FRAMES_CAPACITY - place)), length events - FRAMES_CAPACITY)
      else if place < length events then (Received (events ! place), Suc place)
      else (Empty, place))"

lemma ring_recv_documented: "bus_documented ring_recv"
  by (auto simp: bus_documented_def ring_recv_def FRAMES_CAPACITY_def)

end
