(* ===== verification/Ws_Binary.thy ===== *)
theory Ws_Binary
  imports Binary_Session Ws_Message
begin

text \<open>
  The binary session over a WebSocket, \<open>src/infra/transport_ws/ws_binary.rs\<close>. The output is a list
  of messages. The reader decodes at most one request during the handshake and runs the decoding loop
  only after a later binary message.
\<close>

section \<open>Helpers\<close>

definition should_send_frame :: "string set \<Rightarrow> frame_event \<Rightarrow> bool" where
  "should_send_frame subscribed ev \<longleftrightarrow> ev_iface ev \<in> subscribed"

definition update_subscription_set :: "string set \<Rightarrow> string list \<Rightarrow> string set" where
  "update_subscription_set subscribed ifaces = foldl (\<lambda>set iface. insert iface set) {} ifaces"

definition clear_subscription_set :: "string set \<Rightarrow> string set" where
  "clear_subscription_set subscribed = {}"

definition frame_event_to_daemon_binary :: "frame_event \<Rightarrow> DaemonBinaryResponse" where
  "frame_event_to_daemon_binary ev =
     DaemonBinaryResponse.FrameEvent (ev_ts_ms ev) (ev_iface ev)
       (case ev_dir ev of Rx \<Rightarrow> ''rx'' | Tx \<Rightarrow> ''tx'') (ev_id ev) (ev_is_fd ev) (ev_data ev)"

definition bytes_to_hex_lower :: "bytes \<Rightarrow> string" where
  "bytes_to_hex_lower bs =
     (let out = foldl (\<lambda>out b. (out @ [LUT ! unat (drop_bit 4 b)]) @ [LUT ! unat (b AND 0x0F)]) [] bs
      in case from_utf8 out of None \<Rightarrow> '''' | Some s \<Rightarrow> s)"

section \<open>State\<close>

datatype session_error = ClientHelloTimeout | ClosedDuringHandshake | GotText | WriterClosed
  | DecodeError codec_error

text \<open>
  Where the reader is: waiting for the hello, waiting for a message, about to decode the next
  buffered request, or done (the session function returned this result).
\<close>

datatype phase = Handshake | Receiving | Decoding | Finished "(session_error, unit) result"

record ws_binary = "(string set, DaemonBinaryResponse, message) session" +
  receive_buffer :: bytes
  phase :: phase

definition hello_ack :: DaemonBinaryResponse where
  "hello_ack = DaemonBinaryResponse.HelloAck ''1.0'' ''can-bridge-daemon'' [''ws'', ''binary'', ''json'']"

definition session_start :: ws_binary where
  "session_start =
     \<lparr>subs = {}, outgoing = [], sender_alive = True, writer_alive = True, wire = [],
      receive_buffer = [], phase = Handshake\<rparr>"

definition finish :: "(session_error, unit) result \<Rightarrow> ws_binary \<Rightarrow> ws_binary" where
  "finish r s = drop_sender (s\<lparr>phase := Finished r\<rparr>)"

section \<open>Requests\<close>

definition list_ifaces_reply :: "(string \<Rightarrow> string) \<Rightarrow> DaemonResponse \<Rightarrow> DaemonBinaryResponse" where
  "list_ifaces_reply dbg_str response =
     (case response of
        DaemonResponse.Ifaces items \<Rightarrow> DaemonBinaryResponse.Ifaces items
      | DaemonResponse.Error message \<Rightarrow> DaemonBinaryResponse.Error message
      | other \<Rightarrow>
          DaemonBinaryResponse.Error
            (''unexpected list_ifaces response: '' @ debug_response dbg_str other))"

definition send_frame_reply :: "(string \<Rightarrow> string) \<Rightarrow> DaemonResponse \<Rightarrow> DaemonBinaryResponse" where
  "send_frame_reply dbg_str response =
     (case response of
        DaemonResponse.SendAck ok error_message \<Rightarrow> DaemonBinaryResponse.SendAck ok error_message
      | DaemonResponse.Error message \<Rightarrow> DaemonBinaryResponse.SendAck False (Some message)
      | other \<Rightarrow>
          DaemonBinaryResponse.Error
            (''unexpected send_frame response: '' @ debug_response dbg_str other))"

fun dispatch :: "'w ports \<Rightarrow> (string \<Rightarrow> string) \<Rightarrow> ClientBinaryRequest \<Rightarrow> ws_binary \<times> 'w bridge
    \<Rightarrow> ws_binary \<times> 'w bridge" where
  "dispatch ports dbg_str (ClientBinaryRequest.Ping i) (s, d) =
     (enqueue (DaemonBinaryResponse.Pong i) s, d)"
| "dispatch ports dbg_str ClientBinaryRequest.ListIfaces (s, d) =
     (let (response, d') = handle ports ClientRequest.ListIfaces d
      in (enqueue (list_ifaces_reply dbg_str response) s, d'))"
| "dispatch ports dbg_str (ClientBinaryRequest.Subscribe ifaces) (s, d) =
     (enqueue (DaemonBinaryResponse.Subscribed ifaces)
        (s\<lparr>subs := update_subscription_set (subs s) ifaces\<rparr>), d)"
| "dispatch ports dbg_str ClientBinaryRequest.Unsubscribe (s, d) =
     (enqueue DaemonBinaryResponse.Unsubscribed (s\<lparr>subs := clear_subscription_set (subs s)\<rparr>), d)"
| "dispatch ports dbg_str (ClientBinaryRequest.SendFrame iface i is_fd brs esi data) (s, d) =
     (let data_hex = bytes_to_hex_lower data;
          (response, d') = handle ports (ClientRequest.SendFrame iface i is_fd brs esi data_hex) d
      in (enqueue (send_frame_reply dbg_str response) s, d'))"
| "dispatch ports dbg_str (ClientBinaryRequest.ClientHello client protocol) (s, d) =
     (enqueue (DaemonBinaryResponse.Error ''ClientHello already completed'') s, d)"

section \<open>Reader\<close>

text \<open>\<open>HelloAck\<close> is the one message whose failed sending ends the session.\<close>

definition accept_hello :: "ws_binary \<Rightarrow> ws_binary" where
  "accept_hello s =
     (if writer_alive s then (enqueue hello_ack s)\<lparr>phase := Receiving\<rparr> else finish (Inl WriterClosed) s)"

definition handshake_step :: "(string \<Rightarrow> string) \<Rightarrow> ws_input \<Rightarrow> ws_binary \<Rightarrow> ws_binary" where
  "handshake_step dbg_str input s =
     (case input of
        Proceed \<Rightarrow> s
      | HelloTimeout \<Rightarrow> finish (Inl ClientHelloTimeout) s
      | NextError \<Rightarrow> finish (Inl ClosedDuringHandshake) s
      | NextEnd \<Rightarrow> finish (Inl ClosedDuringHandshake) s
      | Next (Binary bytes) \<Rightarrow>
          let s = s\<lparr>receive_buffer := receive_buffer s @ bytes\<rparr> in
          (case decode_client_from (receive_buffer s) of
             Inl e \<Rightarrow> finish (Inl (DecodeError e)) s
           | Inr None \<Rightarrow> s
           | Inr (Some (req, consumed)) \<Rightarrow>
               let s = s\<lparr>receive_buffer := drop consumed (receive_buffer s)\<rparr> in
               (case req of
                  ClientBinaryRequest.ClientHello client protocol \<Rightarrow> accept_hello s
                | other \<Rightarrow>
                    finish (Inr ())
                      (enqueue (DaemonBinaryResponse.Error
                         (''expected ClientHello, got '' @ debug_binary_request dbg_str other)) s)))
      | Next (Text _) \<Rightarrow> finish (Inl GotText) s
      | Next Close \<Rightarrow> finish (Inl ClosedDuringHandshake) s
      | Next _ \<Rightarrow> s)"

definition decode_step :: "'w ports \<Rightarrow> (string \<Rightarrow> string) \<Rightarrow> ws_binary \<times> 'w bridge \<Rightarrow> ws_binary \<times> 'w bridge" where
  "decode_step ports dbg_str sd =
     (let (s, d) = sd in
      case decode_client_from (receive_buffer s) of
        Inl e \<Rightarrow> (finish (Inl (DecodeError e)) s, d)
      | Inr None \<Rightarrow> (s\<lparr>phase := Receiving\<rparr>, d)
      | Inr (Some (request, consumed)) \<Rightarrow>
          dispatch ports dbg_str request (s\<lparr>receive_buffer := drop consumed (receive_buffer s)\<rparr>, d))"

definition receive_step :: "ws_input \<Rightarrow> ws_binary \<Rightarrow> ws_binary" where
  "receive_step input s =
     (case input of
        NextError \<Rightarrow> finish (Inr ()) s
      | NextEnd \<Rightarrow> finish (Inr ()) s
      | Next (Binary bytes) \<Rightarrow> s\<lparr>receive_buffer := receive_buffer s @ bytes, phase := Decoding\<rparr>
      | Next (Text _) \<Rightarrow> enqueue (DaemonBinaryResponse.Error ''unexpected Text in binary mode'') s
      | Next Close \<Rightarrow> finish (Inr ()) s
      | Next _ \<Rightarrow> s
      | HelloTimeout \<Rightarrow> s
      | Proceed \<Rightarrow> s)"

definition reader_step :: "'w ports \<Rightarrow> (string \<Rightarrow> string) \<Rightarrow> ws_input \<Rightarrow> ws_binary \<times> 'w bridge
    \<Rightarrow> ws_binary \<times> 'w bridge" where
  "reader_step ports dbg_str input sd =
     (let (s, d) = sd in
      case phase s of
        Handshake \<Rightarrow> (handshake_step dbg_str input s, d)
      | Receiving \<Rightarrow> (receive_step input s, d)
      | Decoding \<Rightarrow> if input = Proceed then decode_step ports dbg_str (s, d) else (s, d)
      | Finished r \<Rightarrow> (s, d))"

section \<open>Writer\<close>

definition write_response :: "io \<Rightarrow> DaemonBinaryResponse \<Rightarrow> ws_binary \<Rightarrow> ws_binary" where
  "write_response io resp s =
     (case encode_daemon resp of
        Inl e \<Rightarrow> stop_writer s
      | Inr bytes \<Rightarrow> write_out io [Binary bytes] s)"

definition writer_step :: "writer_input \<Rightarrow> ws_binary \<Rightarrow> ws_binary" where
  "writer_step input s =
     (if \<not> writer_alive s then s
      else case input of
        Recv io \<Rightarrow>
          (case outgoing s of
             resp # rest \<Rightarrow> write_response io resp (s\<lparr>outgoing := rest\<rparr>)
           | [] \<Rightarrow> if sender_alive s then s else stop_writer s)
      | BusEvent frame_event io \<Rightarrow>
          if should_send_frame (subs s) frame_event
          then write_response io (frame_event_to_daemon_binary frame_event) s
          else s
      | BusLagged dropped \<Rightarrow> s
      | BusClosed \<Rightarrow> stop_writer s)"

section \<open>Runs\<close>

text \<open>The reachable states, with the bytes of the binary messages received.\<close>

fun bytes_received :: "phase \<Rightarrow> ws_input \<Rightarrow> bytes" where
  "bytes_received Handshake (Next (Binary bytes)) = bytes"
| "bytes_received Receiving (Next (Binary bytes)) = bytes"
| "bytes_received _ _ = []"

inductive reach :: "'w ports \<Rightarrow> (string \<Rightarrow> string) \<Rightarrow> bytes \<Rightarrow> ws_binary \<Rightarrow> 'w bridge \<Rightarrow> bool"
  for ports dbg_str where
  start: "reach ports dbg_str [] session_start d"
| reader: "reach ports dbg_str rb s d \<Longrightarrow> reader_step ports dbg_str input (s, d) = (s', d')
    \<Longrightarrow> reach ports dbg_str (rb @ bytes_received (phase s) input) s' d'"
| writer: "reach ports dbg_str rb s d \<Longrightarrow> reach ports dbg_str rb (writer_step input s) d"
| others: "reach ports dbg_str rb s d \<Longrightarrow> reach ports dbg_str rb s d'"

section \<open>Dispatch and writer meet their contracts\<close>

lemma ws_update_subscription_set_eq [simp]: "update_subscription_set g ifaces = set ifaces"
proof -
  have "foldl (\<lambda>set iface. insert iface set) g ifaces = g \<union> set ifaces" for g
    by (induction ifaces arbitrary: g) auto
  then show ?thesis by (simp add: update_subscription_set_def)
qed

lemma ws_clear_subscription_set_eq [simp]: "clear_subscription_set g = {}"
  by (simp add: clear_subscription_set_def)

lemma ws_bytes_to_hex_lower_eq [simp]: "bytes_to_hex_lower bs = hex_lower bs"
  by (simp add: bytes_to_hex_lower_def hex_lower_def)

lemma ws_dispatch_replies:
  "\<exists>r d'. reply_to ports q r \<and> dispatch ports dbg_str q (s, d) =
     (enqueue r (s\<lparr>subs := apply_op update_subscription_set clear_subscription_set (subscription_op q) (subs s)\<rparr>), d')"
proof (cases q)
  case ListIfaces
  show ?thesis
    by (rule bridge.serve_list_cases [of ports d])
      (use ListIfaces in \<open>auto simp: apply_op_def list_ifaces_reply_def intro!: exI [of _ d]\<close>)
next
  case (SendFrame iface i is_fd brs esi data)
  show ?thesis
    by (rule bridge.serve_send_cases [of ports iface i is_fd brs esi "hex_lower data" d])
      (use SendFrame in \<open>auto simp: apply_op_def send_frame_reply_def simp del: handle.simps intro!: exI [of _ d]\<close>)
qed (auto simp: apply_op_def)

text \<open>What a session answers: the requests it decodes and the text messages it rejects.\<close>

datatype item = Request ClientBinaryRequest | UnexpectedText

fun serve_item :: "'w ports \<Rightarrow> (string \<Rightarrow> string) \<Rightarrow> item \<Rightarrow> ws_binary \<times> 'w bridge \<Rightarrow> ws_binary \<times> 'w bridge" where
  "serve_item ports dbg_str (Request q) sd = dispatch ports dbg_str q sd"
| "serve_item ports dbg_str UnexpectedText (s, d) =
     (enqueue (DaemonBinaryResponse.Error ''unexpected Text in binary mode'') s, d)"

fun item_reply :: "'w ports \<Rightarrow> item \<Rightarrow> DaemonBinaryResponse \<Rightarrow> bool" where
  "item_reply ports (Request q) r = reply_to ports q r"
| "item_reply ports UnexpectedText r \<longleftrightarrow> r = DaemonBinaryResponse.Error ''unexpected Text in binary mode''"

fun item_op :: "item \<Rightarrow> string list sub_op option" where
  "item_op (Request q) = subscription_op q"
| "item_op UnexpectedText = None"

fun requests_of :: "item list \<Rightarrow> ClientBinaryRequest list" where
  "requests_of [] = []"
| "requests_of (Request q # items) = q # requests_of items"
| "requests_of (UnexpectedText # items) = requests_of items"

lemma requests_of_append [simp]: "requests_of (xs @ ys) = requests_of xs @ requests_of ys"
  by (induction xs rule: requests_of.induct) simp_all

definition message_of :: "DaemonBinaryResponse \<Rightarrow> message list" where
  "message_of r = [Binary (daemon_packet r)]"

lemma serve_item_replies:
  "\<exists>r d'. item_reply ports q r \<and> serve_item ports dbg_str q (s, d) =
     (enqueue r (s\<lparr>subs := apply_op update_subscription_set clear_subscription_set (item_op q) (subs s)\<rparr>), d')"
proof (cases q)
  case (Request m)
  show ?thesis unfolding Request item_reply.simps serve_item.simps item_op.simps by (rule ws_dispatch_replies)
qed (simp add: apply_op_def)

lemma ws_writer_step_spec:
  "writer_step input s =
     writer_spec False (\<lambda>r. Some (message_of r)) should_send_frame frame_event_to_daemon_binary input s"
  by (simp add: writer_step_def writer_spec_def write_response_def emit_def encode_daemon_total message_of_def
      split: writer_input.split list.split)

interpretation ws: streaming_session writer_step False "\<lambda>r. Some (message_of r)" should_send_frame
  frame_event_to_daemon_binary update_subscription_set clear_subscription_set subscribes "{}"
  "serve_item ports dbg_str" "item_reply ports" item_op
  for ports :: "'w ports" and dbg_str
  by unfold_locales (rule serve_item_replies | simp add: ws_writer_step_spec should_send_frame_def subscribes_def)+

section \<open>What a reader step does to output and bridge\<close>

lemma ws_dispatch_effect:
  assumes "dispatch ports dbg_str q (s, d) = (s', d')"
  shows "only_sends binary_reply s s' \<and> serviced ports d d'"
proof
  obtain r where "reply_to ports q r"
    "s' = enqueue r (s\<lparr>subs := apply_op update_subscription_set clear_subscription_set (subscription_op q) (subs s)\<rparr>)"
    using ws_dispatch_replies [of ports q dbg_str s d] assms by auto
  then show "only_sends binary_reply s s'"
    by (auto intro!: only_sends_enqueue only_sends_cong reply_to_binary_reply)
  show "serviced ports d d'"
    using assms by (cases q) (auto simp: Let_def case_prod_beta serviced_def simp del: handle.simps)
qed

lemma ws_handshake_effect: "only_sends binary_reply s (handshake_step dbg_str input s)"
  by (auto simp: handshake_step_def accept_hello_def finish_def sends_simps Let_def
      binary_reply_def hello_ack_def
      split: ws_input.split message.split sum.split option.split ClientBinaryRequest.split)

lemma ws_reader_effect:
  assumes "reader_step ports dbg_str input (s, d) = (s', d')"
  shows "only_sends binary_reply s s' \<and> serviced ports d d'"
proof (cases "phase s = Decoding \<and> input = Proceed")
  case True
  have "only_sends binary_reply s s' \<and> serviced ports d d'"
    if "dispatch ports dbg_str q (s\<lparr>receive_buffer := b\<rparr>, d) = (s', d')" for q b
    using ws_dispatch_effect [OF that] by (simp add: only_sends_def)
  with True assms show ?thesis
    by (auto simp: reader_step_def decode_step_def finish_def sends_simps
        split: sum.splits option.splits)
next
  case False
  with assms ws_handshake_effect [of s dbg_str input] show ?thesis
    by (auto simp: reader_step_def receive_step_def finish_def sends_simps binary_reply_def
        split: phase.splits ws_input.splits message.splits if_splits)
qed

section \<open>Invariant of a session\<close>

abbreviation ws_served :: "'w ports \<Rightarrow> DaemonBinaryResponse list \<Rightarrow> item list \<Rightarrow> ws_binary \<Rightarrow> bool" where
  "ws_served ports \<equiv> served (\<lambda>r. Some (message_of r)) frame_event_to_daemon_binary (item_reply ports)
     item_op subscribes (apply_op update_subscription_set clear_subscription_set) {}"

abbreviation ws_answered :: "'w ports \<Rightarrow> DaemonBinaryResponse list \<Rightarrow> item list \<Rightarrow> ws_binary \<Rightarrow> bool" where
  "ws_answered ports \<equiv> answered (\<lambda>r. Some (message_of r)) frame_event_to_daemon_binary (item_reply ports)
     item_op subscribes should_send_frame"

definition ws_before_hello :: "'w ports \<Rightarrow> bytes \<Rightarrow> ws_binary \<Rightarrow> bool" where
  "ws_before_hello ports rb s \<longleftrightarrow> consumed_as rb (receive_buffer s) [] \<and> ws_served ports [] [] s"

definition ws_after_hello :: "'w ports \<Rightarrow> bytes \<Rightarrow> item list \<Rightarrow> ws_binary \<Rightarrow> bool" where
  "ws_after_hello ports rb items s \<longleftrightarrow> ws_served ports [hello_ack] items s \<and> (\<exists>client protocol.
     consumed_as rb (receive_buffer s) (ClientBinaryRequest.ClientHello client protocol # requests_of items))"

text \<open>
  The sessions that ended in the handshake wrote nothing, or the error for a first request that is
  not a hello.
\<close>

definition ws_no_hello :: "'w ports \<Rightarrow> (string \<Rightarrow> string) \<Rightarrow> bytes \<Rightarrow> (session_error, unit) result \<Rightarrow> ws_binary \<Rightarrow> bool" where
  "ws_no_hello ports dbg_str rb r s \<longleftrightarrow>
     (r \<noteq> Inr () \<and> ws_served ports [] [] s)
     \<or> (r = Inr () \<and> (\<exists>q n. (\<forall>client protocol. q \<noteq> ClientBinaryRequest.ClientHello client protocol)
         \<and> decode_client_from rb = Inr (Some (q, n))
         \<and> ws_served ports [DaemonBinaryResponse.Error
             (''expected ClientHello, got '' @ debug_binary_request dbg_str q)] [] s))"

definition ws_inv :: "'w ports \<Rightarrow> (string \<Rightarrow> string) \<Rightarrow> bytes \<Rightarrow> ws_binary \<Rightarrow> bool" where
  "ws_inv ports dbg_str rb s \<longleftrightarrow>
     (case phase s of
        Handshake \<Rightarrow> ws_before_hello ports rb s \<and> decode_client_from (receive_buffer s) = Inr None
      | Receiving \<Rightarrow> \<exists>items. ws_after_hello ports rb items s
          \<and> (requests_of items = [] \<or> decode_client_from (receive_buffer s) = Inr None)
      | Decoding \<Rightarrow> \<exists>items. ws_after_hello ports rb items s
      | Finished r \<Rightarrow> \<not> sender_alive s \<and> (ws_no_hello ports dbg_str rb r s \<or> (\<exists>items. ws_after_hello ports rb items s)))"

lemma ws_served_fields [simp]:
  "ws_served ports pre ms (s\<lparr>receive_buffer := b\<rparr>) = ws_served ports pre ms s"
  "ws_served ports pre ms (s\<lparr>phase := ph\<rparr>) = ws_served ports pre ms s"
  "ws_served ports pre ms (finish r s) = ws_served ports pre ms s"
  by (rule served_cong; simp add: finish_def drop_sender_def)+

lemma ws_finish_fields [simp]:
  "phase (finish r s) = Finished r" "receive_buffer (finish r s) = receive_buffer s"
  "sender_alive (finish r s) = False"
  by (simp_all add: finish_def drop_sender_def)

lemma ws_enqueue_fields [simp]: "phase (enqueue r s) = phase s" "receive_buffer (enqueue r s) = receive_buffer s"
  by (simp_all add: enqueue_def)

lemma serve_item_fields:
  assumes "serve_item ports dbg_str q (s, d) = (s', d')"
  shows "phase s' = phase s" and "receive_buffer s' = receive_buffer s"
  using serve_item_replies [of ports q dbg_str s d] assms by auto

lemma ws_writer_step_fields [simp]:
  "phase (writer_step input s) = phase s" "receive_buffer (writer_step input s) = receive_buffer s"
  "sender_alive (writer_step input s) = sender_alive s"
  by (auto simp: writer_step_def write_response_def session_op_defs
      split: writer_input.split list.split sum.split io.split)

lemma ws_progress_fields [simp]:
  "ws_after_hello ports rb items (s\<lparr>phase := ph\<rparr>) = ws_after_hello ports rb items s"
  "ws_after_hello ports rb items (finish r s) = ws_after_hello ports rb items s"
  "ws_no_hello ports dbg_str rb r (finish r' s) = ws_no_hello ports dbg_str rb r s"
  by (simp_all add: ws_after_hello_def ws_no_hello_def)

lemma ws_progress_writer:
  "ws_before_hello ports rb s \<Longrightarrow> ws_before_hello ports rb (writer_step input s)"
  "ws_after_hello ports rb items s \<Longrightarrow> ws_after_hello ports rb items (writer_step input s)"
  "ws_no_hello ports dbg_str rb r s \<Longrightarrow> ws_no_hello ports dbg_str rb r (writer_step input s)"
  unfolding ws_before_hello_def ws_after_hello_def ws_no_hello_def ws_writer_step_fields
  by (blast intro: ws.served_wstep)+

lemma ws_progress_item:
  assumes "ws_after_hello ports rb items s" and "decode_client_from (receive_buffer s) = Inr (Some (q, n))"
    and "dispatch ports dbg_str q (s\<lparr>receive_buffer := drop n (receive_buffer s)\<rparr>, d) = (s', d')"
  shows "ws_after_hello ports rb (items @ [Request q]) s'"
proof -
  let ?s = "s\<lparr>receive_buffer := drop n (receive_buffer s)\<rparr>"
  obtain client protocol
    where c: "consumed_as rb (receive_buffer s) (ClientBinaryRequest.ClientHello client protocol # requests_of items)"
      and v: "ws_served ports [hello_ack] items ?s"
    using assms(1) by (auto simp: ws_after_hello_def)
  have item: "serve_item ports dbg_str (Request q) (?s, d) = (s', d')" using assms(3) by simp
  from consumed_as_decode [OF c assms(2)] ws.served_dispatch [OF v item] serve_item_fields [OF item]
  show ?thesis by (auto simp: ws_after_hello_def)
qed

lemma ws_progress_text:
  assumes "ws_after_hello ports rb items s"
  shows "ws_after_hello ports rb (items @ [UnexpectedText])
    (enqueue (DaemonBinaryResponse.Error ''unexpected Text in binary mode'') s)"
proof -
  have "ws_served ports [hello_ack] items s" using assms by (simp add: ws_after_hello_def)
  from ws.served_dispatch [OF this serve_item.simps(2)] assms show ?thesis by (simp add: ws_after_hello_def)
qed

lemma ws_inv_start: "ws_inv ports dbg_str [] session_start"
  by (simp add: ws_inv_def session_start_def ws_before_hello_def consumed_as_start served_start)

lemma ws_inv_writer: "ws_inv ports dbg_str rb s \<Longrightarrow> ws_inv ports dbg_str rb (writer_step input s)"
  by (auto simp: ws_inv_def intro: ws_progress_writer split: phase.splits)

text \<open>The first request, decoded from the bytes received so far.\<close>

lemma ws_inv_hello:
  assumes "ws_before_hello ports rb s"
    and "decode_client_from (receive_buffer s) = Inr (Some (ClientBinaryRequest.ClientHello client protocol, n))"
  shows "ws_inv ports dbg_str rb (accept_hello (s\<lparr>receive_buffer := drop n (receive_buffer s)\<rparr>))"
proof -
  let ?s = "s\<lparr>receive_buffer := drop n (receive_buffer s)\<rparr>"
  have c: "consumed_as rb (receive_buffer s) []" and v: "ws_served ports [] [] ?s"
    using assms(1) by (simp_all add: ws_before_hello_def)
  have "ws_after_hello ports rb [] (enqueue hello_ack ?s)"
    using consumed_as_decode [OF c assms(2)] served_pre [OF v, of hello_ack] by (auto simp: ws_after_hello_def)
  moreover have "ws_no_hello ports dbg_str rb (Inl WriterClosed) ?s" using v by (simp add: ws_no_hello_def)
  ultimately show ?thesis by (auto simp: accept_hello_def ws_inv_def intro: exI [of _ "[]"])
qed

lemma ws_inv_refuse:
  assumes "ws_before_hello ports rb s" and "decode_client_from (receive_buffer s) = Inr (Some (q, n))"
    and "\<forall>client protocol. q \<noteq> ClientBinaryRequest.ClientHello client protocol"
  shows "ws_inv ports dbg_str rb (finish (Inr ()) (enqueue (DaemonBinaryResponse.Error
      (''expected ClientHello, got '' @ debug_binary_request dbg_str q))
      (s\<lparr>receive_buffer := drop n (receive_buffer s)\<rparr>)))"
proof -
  have c: "consumed_as rb (receive_buffer s) []"
    and v: "ws_served ports [] [] (s\<lparr>receive_buffer := drop n (receive_buffer s)\<rparr>)"
    using assms(1) by (simp_all add: ws_before_hello_def)
  have "decode_client_from rb = Inr (Some (q, n))" using c assms(2) by (simp add: consumed_as_Nil)
  with served_pre [OF v] assms(3) show ?thesis by (auto simp: ws_inv_def ws_no_hello_def)
qed

lemma handshake_input_cases:
  obtains bytes where "input = Next (Binary bytes)" | t where "input = Next (Text t)"
  | bytes where "input = Next (message.Ping bytes)" | bytes where "input = Next (message.Pong bytes)"
  | "input = Next Close" | "input = NextError" | "input = NextEnd" | "input = HelloTimeout" | "input = Proceed"
  by (metis message.exhaust ws_input.exhaust)

lemma ws_inv_handshake:
  assumes "ws_inv ports dbg_str rb s" and "phase s = Handshake"
  shows "ws_inv ports dbg_str (rb @ bytes_received Handshake input) (handshake_step dbg_str input s)"
proof (cases "\<exists>bytes. input = Next (Binary bytes)")
  case True
  then obtain bytes where input: "input = Next (Binary bytes)" by blast
  let ?s = "s\<lparr>receive_buffer := receive_buffer s @ bytes\<rparr>"
  have b: "ws_before_hello ports (rb @ bytes) ?s"
    using assms by (auto simp: ws_inv_def ws_before_hello_def intro: consumed_as_read)
  show ?thesis
  proof (cases "receive_buffer ?s" rule: requests.stream_cases)
    case (Message q n)
    show ?thesis
    proof (cases "\<exists>client protocol. q = ClientBinaryRequest.ClientHello client protocol")
      case True
      with input Message ws_inv_hello [OF b] show ?thesis by (auto simp: handshake_step_def)
    next
      case False
      with input Message have "handshake_step dbg_str input s = finish (Inr ()) (enqueue
          (DaemonBinaryResponse.Error (''expected ClientHello, got '' @ debug_binary_request dbg_str q))
          (?s\<lparr>receive_buffer := drop n (receive_buffer ?s)\<rparr>))"
        by (cases q) (auto simp: handshake_step_def)
      with input False ws_inv_refuse [OF b Message(1)] show ?thesis by simp
    qed
  qed (use input b assms(2) in \<open>simp_all add: handshake_step_def ws_inv_def ws_no_hello_def ws_before_hello_def\<close>)
next
  case False
  with assms show ?thesis
    by (cases input rule: handshake_input_cases)
      (auto simp: handshake_step_def ws_inv_def ws_no_hello_def ws_before_hello_def)
qed

lemma ws_inv_decode:
  assumes "ws_inv ports dbg_str rb s" and "phase s = Decoding"
    and "decode_step ports dbg_str (s, d) = (s', d')"
  shows "ws_inv ports dbg_str rb s'"
proof (cases "receive_buffer s" rule: requests.stream_cases)
  case (Message q n)
  with assms(3) have "dispatch ports dbg_str q (s\<lparr>receive_buffer := drop n (receive_buffer s)\<rparr>, d) = (s', d')"
    by (simp add: decode_step_def)
  with ws_progress_item [OF _ Message(1) this] serve_item_fields [of ports dbg_str "Request q"] assms(1,2)
  show ?thesis by (fastforce simp: ws_inv_def)
qed (use assms in \<open>auto simp: decode_step_def ws_inv_def\<close>)

lemma ws_decoding_consumes:
  assumes "phase s = Decoding" and "reader_step ports dbg_str Proceed (s, d) = (s', d')"
  shows "phase s' \<noteq> Decoding \<or> length (receive_buffer s') + HEADER_LEN \<le> length (receive_buffer s)"
proof (cases "receive_buffer s" rule: requests.stream_cases)
  case (Message q n)
  with assms have "dispatch ports dbg_str q (s\<lparr>receive_buffer := drop n (receive_buffer s)\<rparr>, d) = (s', d')"
    by (simp add: reader_step_def decode_step_def)
  with serve_item_fields(2) [of ports dbg_str "Request q" "s\<lparr>receive_buffer := drop n (receive_buffer s)\<rparr>" d s' d'] decode_client_from_bounds [OF Message(1)]
  have "length (receive_buffer s') = length (receive_buffer s) - n" "HEADER_LEN \<le> n" "n \<le> length (receive_buffer s)"
    by simp_all
  then show ?thesis by linarith
qed (use assms in \<open>auto simp: reader_step_def decode_step_def\<close>)

lemma ws_inv_receive:
  assumes "ws_inv ports dbg_str rb s" and "phase s = Receiving"
  shows "ws_inv ports dbg_str (rb @ bytes_received Receiving input) (receive_step input s)"
proof -
  obtain items where a: "ws_after_hello ports rb items s"
    and w: "requests_of items = [] \<or> decode_client_from (receive_buffer s) = Inr None"
    using assms by (auto simp: ws_inv_def)
  have r: "ws_after_hello ports (rb @ bytes) items (s\<lparr>receive_buffer := receive_buffer s @ bytes\<rparr>)" for bytes
    using a by (auto simp: ws_after_hello_def intro: consumed_as_read)
  then have d: "ws_after_hello ports (rb @ bytes) items (s\<lparr>receive_buffer := receive_buffer s @ bytes, phase := Decoding\<rparr>)"
    for bytes by (simp add: ws_after_hello_def)
  show ?thesis
  proof (cases input)
    case (Next msg)
    with a w d ws_progress_text [OF a] assms(2) show ?thesis
      by (cases msg) (auto simp: receive_step_def ws_inv_def intro: exI [of _ "items @ [UnexpectedText]"])
  qed (use a w assms(2) in \<open>auto simp: receive_step_def ws_inv_def\<close>)
qed

lemma ws_reach_inv: "reach ports dbg_str rb s d \<Longrightarrow> ws_inv ports dbg_str rb s"
proof (induction rule: reach.induct)
  case (reader rb s d input s' d')
  show ?case
  proof (cases "phase s")
    case Handshake
    with reader ws_inv_handshake [OF reader.IH Handshake] show ?thesis
      by (auto simp: reader_step_def)
  next
    case Decoding
    with reader ws_inv_decode [OF reader.IH Decoding] show ?thesis
      by (auto simp: reader_step_def split: if_splits)
  next
    case Receiving
    with reader ws_inv_receive [OF reader.IH Receiving] show ?thesis
      by (auto simp: reader_step_def)
  qed (use reader in \<open>auto simp: reader_step_def\<close>)
qed (auto intro: ws_inv_start ws_inv_writer)

section \<open>Properties\<close>

text \<open>C20: In every reachable state of a binary WebSocket session that waits for a message after the
  handshake, the bytes received are a \<open>ClientHello\<close>, then the requests handled, then the buffer;
  the buffer holds no complete request, except when no request was handled yet. \<open>HelloAck\<close> and one
  fitting reply per request and per rejected text message, in order, were sent or are queued, and
  frames are forwarded only as subscribed.\<close>

theorem ws_binary_answers_in_order:
  assumes "reach ports dbg_str rb s d" and "phase s = Receiving"
  shows "\<exists>client protocol items.
    consumed_as rb (receive_buffer s) (ClientBinaryRequest.ClientHello client protocol # requests_of items)
    \<and> (requests_of items = [] \<or> requests_in rb =
        (None, receive_buffer s, ClientBinaryRequest.ClientHello client protocol # requests_of items))
    \<and> ws_answered ports [hello_ack] items s"
proof -
  obtain items where a: "ws_after_hello ports rb items s"
    and w: "requests_of items = [] \<or> decode_client_from (receive_buffer s) = Inr None"
    using ws_reach_inv [OF assms(1)] assms(2) by (auto simp: ws_inv_def)
  then obtain client protocol
    where c: "consumed_as rb (receive_buffer s) (ClientBinaryRequest.ClientHello client protocol # requests_of items)"
      and v: "ws_served ports [hello_ack] items s"
    by (auto simp: ws_after_hello_def)
  from c w ws.served_answered [OF v] consumed_as_wait [OF c] show ?thesis by blast
qed

text \<open>A binary WebSocket session says nothing before the client: until the hello is complete nothing was
  sent, nothing is queued and no frame can be forwarded; a session that ends without a hello sent at
  most one error, and only if the first request was something else.\<close>

lemma ws_binary_client_speaks_first:
  assumes "reach ports dbg_str rb s d"
  shows "(phase s = Handshake \<longrightarrow> wire s = [] \<and> subs s = {} \<and> (writer_alive s \<longrightarrow> outgoing s = []))
    \<and> (\<forall>r. phase s = Finished r \<longrightarrow>
         (\<exists>client protocol items. ws_answered ports [hello_ack] items s
            \<and> consumed_as rb (receive_buffer s) (ClientBinaryRequest.ClientHello client protocol # requests_of items))
         \<or> (r \<noteq> Inr () \<and> wire s = [])
         \<or> (r = Inr () \<and> (\<exists>q n. decode_client_from rb = Inr (Some (q, n))
              \<and> (\<forall>client protocol. q \<noteq> ClientBinaryRequest.ClientHello client protocol)
              \<and> (\<exists>rest. wire s @ rest = message_of (DaemonBinaryResponse.Error
                   (''expected ClientHello, got '' @ debug_binary_request dbg_str q))))))"
proof -
  note silent = served_none [of message_of frame_event_to_daemon_binary]
  have inv: "ws_inv ports dbg_str rb s" by (rule ws_reach_inv [OF assms])
  show ?thesis
  proof (intro conjI impI allI)
    assume "phase s = Handshake"
    with inv have "ws_served ports [] [] s" by (simp add: ws_inv_def ws_before_hello_def)
    from silent [OF this] show "wire s = []" "subs s = {}" "writer_alive s \<Longrightarrow> outgoing s = []" by blast+
  next
    fix r assume r: "phase s = Finished r"
    then consider (failed) "r \<noteq> Inr ()" "ws_served ports [] [] s"
      | (refused) q n where "r = Inr ()" "\<forall>client protocol. q \<noteq> ClientBinaryRequest.ClientHello client protocol"
          "decode_client_from rb = Inr (Some (q, n))"
          "ws_served ports [DaemonBinaryResponse.Error
             (''expected ClientHello, got '' @ debug_binary_request dbg_str q)] [] s"
      | (served) items where "ws_after_hello ports rb items s"
      using inv by (auto simp: ws_inv_def ws_no_hello_def)
    then show "(\<exists>client protocol items. ws_answered ports [hello_ack] items s
            \<and> consumed_as rb (receive_buffer s) (ClientBinaryRequest.ClientHello client protocol # requests_of items))
         \<or> (r \<noteq> Inr () \<and> wire s = [])
         \<or> (r = Inr () \<and> (\<exists>q n. decode_client_from rb = Inr (Some (q, n))
              \<and> (\<forall>client protocol. q \<noteq> ClientBinaryRequest.ClientHello client protocol)
              \<and> (\<exists>rest. wire s @ rest = message_of (DaemonBinaryResponse.Error
                   (''expected ClientHello, got '' @ debug_binary_request dbg_str q)))))"
    proof cases
      case failed
      with silent [OF failed(2)] show ?thesis by simp
    next
      case refused
      with served_one(1) [OF refused(4) refl] show ?thesis by blast
    next
      case served
      then show ?thesis by (auto simp: ws_after_hello_def dest!: ws.served_answered)
    qed
  qed
qed

text \<open>One step of the session, its reader's or its writer's.\<close>

fun session_step :: "'w ports \<Rightarrow> (string \<Rightarrow> string) \<Rightarrow> ws_input + writer_input \<Rightarrow> ws_binary \<times> 'w bridge
    \<Rightarrow> ws_binary \<times> 'w bridge" where
  "session_step ports dbg_str (Inl i) sd = reader_step ports dbg_str i sd"
| "session_step ports dbg_str (Inr i) (s, d) = (writer_step i s, d)"

text \<open>A greeted session that holds bytes it has not looked at, and said nothing but \<open>HelloAck\<close> and complaints about texts.\<close>

definition unserved :: "bytes \<Rightarrow> ws_binary \<Rightarrow> bool" where
  "unserved bytes s \<longleftrightarrow> receive_buffer s = bytes \<and> subs s = {}
     \<and> set (outgoing s) \<subseteq> {hello_ack, DaemonBinaryResponse.Error ''unexpected Text in binary mode''}
     \<and> set (wire s) \<subseteq> (\<lambda>r. Binary (daemon_packet r))
         ` {hello_ack, DaemonBinaryResponse.Error ''unexpected Text in binary mode''}"

lemma unserved_writer:
  assumes "unserved bytes s"
  shows "unserved bytes (writer_step i s) \<and> phase (writer_step i s) = phase s"
proof -
  have out: "set (take n [x]) \<subseteq> {x}" for n and x :: message by (cases n) simp_all
  have w: "unserved bytes (write_out io [Binary (daemon_packet r)] t) \<and> phase (write_out io [Binary (daemon_packet r)] t) = phase t"
    if "unserved bytes t" "r \<in> {hello_ack, DaemonBinaryResponse.Error ''unexpected Text in binary mode''}" for io r t
    using that out [of _ "Binary (daemon_packet r)"]
    by (cases io) (fastforce simp: unserved_def write_out_def stop_writer_def)+
  have stop: "unserved bytes (stop_writer s) \<and> phase (stop_writer s) = phase s"
    using assms by (simp add: unserved_def stop_writer_def)
  show ?thesis
  proof (cases "writer_alive s")
    case True
    show ?thesis
    proof (cases i)
      case (Recv io)
      show ?thesis
      proof (cases "outgoing s")
        case (Cons r rs)
        then have "unserved bytes (s\<lparr>outgoing := rs\<rparr>)"
          "r \<in> {hello_ack, DaemonBinaryResponse.Error ''unexpected Text in binary mode''}"
          using assms by (auto simp: unserved_def)
        from w [OF this, of io] Recv Cons True show ?thesis
          by (simp add: writer_step_def write_response_def encode_daemon_total)
      qed (use Recv True stop assms in \<open>simp add: writer_step_def\<close>)
    qed (use True stop assms in \<open>simp_all add: writer_step_def should_send_frame_def unserved_def\<close>)
  qed (use assms in \<open>simp add: writer_step_def\<close>)
qed

lemma unserved_reader:
  assumes "unserved bytes s" and "phase s = Receiving" and "\<forall>bytes. i \<noteq> Next (Binary bytes)"
  shows "unserved bytes (receive_step i s)
    \<and> (phase (receive_step i s) = Receiving
       \<or> i \<in> {NextError, NextEnd, Next Close} \<and> (\<exists>r. phase (receive_step i s) = Finished r))"
  using assms by (cases i rule: handshake_input_cases)
    (auto simp: receive_step_def unserved_def enqueue_def finish_def drop_sender_def)

lemma unserved_run:
  assumes "unserved bytes s" and "phase s = Receiving \<or> (\<exists>r. phase s = Finished r)"
    and "\<forall>bytes. Inl (Next (Binary bytes)) \<notin> set inputs"
  shows "\<exists>s'. fold (session_step ports dbg_str) inputs (s, d) = (s', d) \<and> unserved bytes s'
    \<and> (phase s' = Receiving \<or> (\<exists>r. phase s' = Finished r))
    \<and> (phase s = Receiving \<longrightarrow> phase s' \<noteq> Receiving \<longrightarrow> set inputs \<inter> Inl ` {NextError, NextEnd, Next Close} \<noteq> {})"
  using assms
proof (induction inputs arbitrary: s)
  case (Cons i inputs)
  note rest = Cons.prems(3)
  show ?case
  proof (cases i)
    case (Inr w)
    with Cons.IH [of "writer_step w s"] unserved_writer [OF Cons.prems(1), of w] Cons.prems(2) rest show ?thesis
      by auto
  next
    case (Inl x)
    show ?thesis
    proof (cases "phase s = Receiving")
      case True
      have "\<forall>bytes. x \<noteq> Next (Binary bytes)" using rest Inl by auto
      note step = unserved_reader [OF Cons.prems(1) True this]
      then obtain s' where "fold (session_step ports dbg_str) inputs (receive_step x s, d) = (s', d)" "unserved bytes s'"
        "phase s' = Receiving \<or> (\<exists>r. phase s' = Finished r)"
        "phase (receive_step x s) = Receiving \<longrightarrow> phase s' \<noteq> Receiving
           \<longrightarrow> set inputs \<inter> Inl ` {NextError, NextEnd, Next Close} \<noteq> {}"
        using Cons.IH [of "receive_step x s"] rest by auto
      with step Inl True show ?thesis by (auto simp: reader_step_def)
    next
      case False
      with Cons.IH [of s] Cons.prems Inl show ?thesis by (auto simp: reader_step_def)
    qed
  qed
qed simp

text \<open>C21: Requests that arrive in the same message as the hello are left in the buffer. The session
  acknowledges the hello; then, in any run of its reader and its writer in which no further binary
  message comes, the request stays in the buffer, the service is not asked, no frame is forwarded and
  nothing is said but \<open>HelloAck\<close> and errors about text messages; the session goes on waiting unless the
  connection ends. Only a further binary message, with whatever bytes, makes the session decode, and
  then the request that waited is dispatched first, the new bytes staying for after it.\<close>

theorem ws_binary_pipelined_request_waits:
  assumes "client_ok (ClientBinaryRequest.ClientHello client protocol)" and "client_ok m"
    and "\<forall>bytes. Inl (Next (Binary bytes)) \<notin> set inputs"
  shows "\<exists>s s'. reader_step ports dbg_str
        (Next (Binary (client_packet (ClientBinaryRequest.ClientHello client protocol) @ client_packet m)))
        (session_start, d) = (s, d)
     \<and> phase s = Receiving \<and> outgoing s = [hello_ack]
     \<and> fold (session_step ports dbg_str) inputs (s, d) = (s', d)
     \<and> unserved (client_packet m) s'
     \<and> (phase s' = Receiving
        \<or> (\<exists>r. phase s' = Finished r) \<and> set inputs \<inter> Inl ` {NextError, NextEnd, Next Close} \<noteq> {})
     \<and> (phase s' = Receiving \<longrightarrow> (\<forall>bytes.
          (reader_step ports dbg_str Proceed \<circ> reader_step ports dbg_str (Next (Binary bytes))) (s', d)
            = dispatch ports dbg_str m (s'\<lparr>phase := Decoding, receive_buffer := bytes\<rparr>, d)))"
proof -
  let ?hello = "ClientBinaryRequest.ClientHello client protocol"
  let ?s = "session_start\<lparr>receive_buffer := client_packet m, outgoing := [hello_ack], phase := Receiving\<rparr>"
  have "reader_step ports dbg_str (Next (Binary (client_packet ?hello @ client_packet m))) (session_start, d) = (?s, d)"
    using decode_client_from_packet [OF assms(1), of "client_packet m"]
    by (simp add: reader_step_def handshake_step_def session_start_def accept_hello_def enqueue_def)
  moreover have "unserved (client_packet m) ?s" by (simp add: unserved_def session_start_def)
  from unserved_run [OF this _ assms(3), of ports dbg_str d] obtain s'
    where "fold (session_step ports dbg_str) inputs (?s, d) = (s', d)" "unserved (client_packet m) s'"
      "phase s' = Receiving \<or> (\<exists>r. phase s' = Finished r) \<and> set inputs \<inter> Inl ` {NextError, NextEnd, Next Close} \<noteq> {}"
    by auto
  moreover from this(2) have "(reader_step ports dbg_str Proceed \<circ> reader_step ports dbg_str (Next (Binary bytes))) (s', d)
      = dispatch ports dbg_str m (s'\<lparr>phase := Decoding, receive_buffer := bytes\<rparr>, d)" if "phase s' = Receiving" for bytes
    using that decode_client_from_packet [OF assms(2), of bytes]
    by (simp add: reader_step_def receive_step_def decode_step_def unserved_def)
  ultimately show ?thesis by (intro exI [of _ ?s] exI [of _ s']) simp
qed

section \<open>Witnesses\<close>

lemma ws_reach_sample:
  "\<exists>s. reach accepting_ports id sample_bytes s empty_bridge \<and> phase s = Receiving
     \<and> receive_buffer s = client_packet (ClientBinaryRequest.Ping 7)"
proof -
  have "client_ok (ClientBinaryRequest.ClientHello ''tool'' ''1'')"
    using sample_ok(1) by (simp add: sample_hello_def)
  then obtain s where "reader_step accepting_ports id (Next (Binary sample_bytes)) (session_start, empty_bridge)
      = (s, empty_bridge)" and s: "phase s = Receiving" "receive_buffer s = client_packet (ClientBinaryRequest.Ping 7)"
    using decode_sample(1) by (auto simp: sample_bytes_def sample_hello_def reader_step_def handshake_step_def
        session_start_def accept_hello_def enqueue_def)
  from reach.reader [OF reach.start this(1)] s show ?thesis by (auto simp: session_start_def)
qed

theorem ws_binary_answers_in_order_witness:
  "\<exists>s. reach accepting_ports id sample_bytes s empty_bridge \<and> phase s = Receiving
     \<and> (\<exists>client protocol items.
          consumed_as sample_bytes (receive_buffer s) (ClientBinaryRequest.ClientHello client protocol # requests_of items)
          \<and> ws_answered accepting_ports [hello_ack] items s)"
proof -
  obtain s where s: "reach accepting_ports id sample_bytes s empty_bridge" "phase s = Receiving"
    using ws_reach_sample by blast
  from ws_binary_answers_in_order [OF s] s show ?thesis by blast
qed

theorem ws_binary_pipelined_request_waits_witness:
  "\<exists>s s'. reader_step accepting_ports id (Next (Binary sample_bytes)) (session_start, empty_bridge) = (s, empty_bridge)
     \<and> fold (session_step accepting_ports id) [Inr (Recv IoOk), Inl (Next (Text ''x'')), Inl Proceed] (s, empty_bridge)
         = (s', empty_bridge)
     \<and> receive_buffer s' = client_packet (ClientBinaryRequest.Ping 7)
     \<and> (reader_step accepting_ports id Proceed \<circ> reader_step accepting_ports id (Next (Binary []))) (s', empty_bridge)
         = (enqueue (DaemonBinaryResponse.Pong 7) (s'\<lparr>phase := Decoding, receive_buffer := []\<rparr>), empty_bridge)"
proof -
  have "client_ok (ClientBinaryRequest.ClientHello ''tool'' ''1'')"
    using sample_ok(1) by (simp add: sample_hello_def)
  moreover have "client_ok (ClientBinaryRequest.Ping 7)" using sample_ok by simp
  ultimately show ?thesis
    using ws_binary_pipelined_request_waits [of "''tool''" "''1''" "ClientBinaryRequest.Ping 7"
        "[Inr (Recv IoOk), Inl (Next (Text ''x'')), Inl Proceed]" accepting_ports id empty_bridge]
    by (fastforce simp: sample_bytes_def sample_hello_def unserved_def)
qed

end
