(* ===== verification/Daemon_System.thy ===== *)
theory Daemon_System
  imports Daemon Servers Transport_Grpc Frame_Bus Tcp_Binary Tcp_Jsonl Ws_Binary Ws_Jsonl
begin

text \<open>
  The running daemon: \<open>src/main.rs\<close> with everything it starts. The state holds the bridge, the three
  servers, every connection with its session and its place on the frame bus, the receiver threads and
  the fake generator. An action is one step of one task, with what the operating system or a library
  returned to it; the tasks interleave arbitrarily, so a run is any list of actions, and an action that
  is not possible in a state leaves it as it is.
\<close>

section \<open>Parameters\<close>

text \<open>
  What is outside the repository: the SocketCAN library, the netlink connection, the clock, JSON, the
  rendering of strings by \<open>Debug\<close>, the broadcast channel, and the parsing of a socket address, of which
  only success or failure matters.
\<close>

record ('sid, 'eid, 'cf, 'ff, 'cs, 'fs, 'f, 'w) env =
  socketcan_lib :: "('sid, 'eid, 'cf, 'ff, 'cs, 'fs, 'w) socketcan"
  as_normal :: "'f \<Rightarrow> 'cf option"
  netlink :: "'w \<Rightarrow> (string, (string, link_attribute list) result list) result \<times> 'w"
  system_clock :: "'w \<Rightarrow> int"
  serde_json :: json
  debug_str :: "string \<Rightarrow> string"
  broadcast_recv :: bus_recv
  parse_addr :: "string \<Rightarrow> (string, unit) result"

abbreviation ports_of :: "('sid, 'eid, 'cf, 'ff, 'cs, 'fs, 'f, 'w) env \<Rightarrow> 'w ports" where
  "ports_of env \<equiv> daemon_ports (socketcan_lib env) (netlink env) (system_clock env)"

record args =
  tcp_bind :: string
  ws_bind :: string
  grpc_bind :: string
  fake :: bool

definition default_args :: args where
  "default_args = \<lparr>tcp_bind = ''127.0.0.1:9500'', ws_bind = ''127.0.0.1:9501'', grpc_bind = ''127.0.0.1:9502'', fake = False\<rparr>"

section \<open>Connections\<close>

text \<open>
  \<open>Peeking\<close>: a TCP connection whose first bytes are awaited. \<open>GrpcStream\<close>: a subscription with the
  interfaces asked for and the items streamed so far.
\<close>

datatype client_session =
    Peeking
  | TcpBinary tcp_binary
  | TcpJsonl tcp_jsonl
  | WsBinary ws_binary
  | WsJsonl ws_jsonl
  | GrpcStream "string set" "(status, pb_frame_event) result list"

record connection =
  client :: client_session
  bus :: receiver

text \<open>\<open>run_binary_session\<close>, \<open>run_jsonl_session\<close> and the WebSocket handlers subscribe to the bus and begin.\<close>

definition open_session :: "'w bridge \<Rightarrow> client_session \<Rightarrow> connection" where
  "open_session d session = \<lparr>client = session, bus = subscribe_frames d\<rparr>"

definition peeked :: "(string, bytes) result \<Rightarrow> client_session" where
  "peeked peek = (case handle_connection peek of
     BinaryMode \<Rightarrow> TcpBinary Tcp_Binary.session_start | JsonlMode \<Rightarrow> TcpJsonl Tcp_Jsonl.session_start)"

text \<open>The upgrade handlers of the two WebSocket routes.\<close>

definition ws_binary_handler :: client_session where
  [simp]: "ws_binary_handler = WsBinary Ws_Binary.session_start"

definition ws_jsonl_handler :: client_session where
  [simp]: "ws_jsonl_handler = WsJsonl Ws_Jsonl.session_start"

definition upgraded :: "mode \<Rightarrow> client_session" where
  "upgraded m = (case m of BinaryMode \<Rightarrow> ws_binary_handler | JsonlMode \<Rightarrow> ws_jsonl_handler)"

text \<open>What a reader waits for, by transport.\<close>

datatype client_input = BytesIn Tcp_Binary.reader_input | LineIn line_input | MessageIn ws_input

fun read_client :: "('sid, 'eid, 'cf, 'ff, 'cs, 'fs, 'f, 'w) env \<Rightarrow> client_input \<Rightarrow> client_session \<times> 'w bridge
    \<Rightarrow> client_session \<times> 'w bridge" where
  "read_client env (BytesIn i) (TcpBinary s, d) =
     map_prod TcpBinary id (Tcp_Binary.reader_step (ports_of env) (debug_str env) i (s, d))"
| "read_client env (LineIn i) (TcpJsonl s, d) =
     map_prod TcpJsonl id (Tcp_Jsonl.reader_step (ports_of env) (serde_json env) (debug_str env) i (s, d))"
| "read_client env (MessageIn i) (WsBinary s, d) =
     map_prod WsBinary id (Ws_Binary.reader_step (ports_of env) (debug_str env) i (s, d))"
| "read_client env (MessageIn i) (WsJsonl s, d) =
     map_prod WsJsonl id (Ws_Jsonl.reader_step (ports_of env) (serde_json env) (debug_str env) i (s, d))"
| "read_client env _ sd = sd"

fun write_client :: "json \<Rightarrow> writer_input \<Rightarrow> client_session \<Rightarrow> client_session" where
  "write_client json input (TcpBinary s) = TcpBinary (Tcp_Binary.writer_step input s)"
| "write_client json input (TcpJsonl s) = TcpJsonl (Tcp_Jsonl.writer_step json input s)"
| "write_client json input (WsBinary s) = WsBinary (Ws_Binary.writer_step input s)"
| "write_client json input (WsJsonl s) = WsJsonl (Ws_Jsonl.writer_step json (Input input) s)"
| "write_client json (BusEvent ev io) (GrpcStream ifaces out) =
     GrpcStream ifaces (out @ (case subscribe_item ifaces (BusFrame ev) of None \<Rightarrow> [] | Some x \<Rightarrow> [x]))"
| "write_client json (BusLagged n) (GrpcStream ifaces out) =
     GrpcStream ifaces (out @ (case subscribe_item ifaces (BusMissed n) of None \<Rightarrow> [] | Some x \<Rightarrow> [x]))"
| "write_client json _ session = session"

fun test_filters :: "json \<Rightarrow> io \<Rightarrow> client_session \<Rightarrow> client_session" where
  "test_filters json io (WsJsonl s) = WsJsonl (Ws_Jsonl.writer_step json (CheckFilters io) s)"
| "test_filters json io session = session"

text \<open>Whether a receive from the bus is pending: the writer runs and is not busy with a frame.\<close>

fun listening :: "client_session \<Rightarrow> bool" where
  "listening Peeking \<longleftrightarrow> False"
| "listening (TcpBinary s) \<longleftrightarrow> writer_alive s"
| "listening (TcpJsonl s) \<longleftrightarrow> writer_alive s"
| "listening (WsBinary s) \<longleftrightarrow> writer_alive s"
| "listening (WsJsonl s) \<longleftrightarrow> writer_alive s \<and> pending s = None"
| "listening (GrpcStream ifaces out) \<longleftrightarrow> True"

definition recv_client :: "('sid, 'eid, 'cf, 'ff, 'cs, 'fs, 'f, 'w) env \<Rightarrow> io \<Rightarrow> 'w bridge \<Rightarrow> connection \<Rightarrow> connection" where
  "recv_client env io d c =
     (if listening (client c)
      then case receive (broadcast_recv env) d (bus c) of
             (Received ev, r) \<Rightarrow> \<lparr>client = write_client (serde_json env) (BusEvent ev io) (client c), bus = r\<rparr>
           | (Lagged n, r) \<Rightarrow> \<lparr>client = write_client (serde_json env) (BusLagged n) (client c), bus = r\<rparr>
           | (Empty, r) \<Rightarrow> c
      else c)"

section \<open>Receiver threads\<close>

text \<open>
  A thread of \<open>run_one_iface_rx_blocking\<close>: it opens a socket, then reads for ever, or it returns
  because none can be opened.
\<close>

datatype rx_state = RxOpening | RxFd | RxClassic | RxReturned

definition rx_open :: "('sid, 'eid, 'cf, 'ff, 'cs, 'fs, 'w) socketcan \<Rightarrow> string \<Rightarrow> 'w \<Rightarrow> rx_state \<times> 'w" where
  "rx_open sc iface w =
     (case CanFdSocket_open sc iface w of
        (Inr sock, w') \<Rightarrow> (RxFd, w')
      | (Inl e_fd, w') \<Rightarrow>
          (case CanSocket_open sc iface w' of
             (Inl e, w'') \<Rightarrow> (RxReturned, w'')
           | (Inr sock, w'') \<Rightarrow> (RxClassic, w'')))"

text \<open>One \<open>read_frame\<close> on either socket and the clock after it. Either way the loop goes on.\<close>

datatype ('ff, 'f) rx_read = ReadFd "(string, 'ff) result" int | ReadClassic "(string, 'f) result" int

definition rx_step :: "('sid, 'eid, 'cf, 'ff, 'cs, 'fs, 'f, 'w) env \<Rightarrow> ('ff, 'f) rx_read \<Rightarrow> string \<Rightarrow> rx_state
    \<Rightarrow> 'w bridge \<Rightarrow> rx_state \<times> 'w bridge" where
  "rx_step env input iface state d =
     (case (state, input) of
        (RxFd, ReadFd result t) \<Rightarrow> (RxFd, rx_fd_step (socketcan_lib env) iface (result, t) d)
      | (RxClassic, ReadClassic result t) \<Rightarrow>
          (RxClassic, rx_classic_step (socketcan_lib env) (as_normal env) iface (result, t) d)
      | _ \<Rightarrow> (state, d))"

section \<open>The daemon\<close>

text \<open>
  A server task of \<open>main\<close>: not spawned, binding its address, serving, or over (it failed, which is only
  logged, or the shutdown token was cancelled).
\<close>

datatype server_state = NotSpawned | Binding | Serving | Over

datatype server = Tcp | Ws | Grpc

text \<open>
  Where \<open>main\<close> is, once it has started the receivers and the generator: about to parse the address of a
  server and to spawn it, waiting for the token, or returned.
\<close>

datatype main_state = Spawning server | Waiting | Returned "(string, unit) result"

record 'w daemon =
  core :: "'w bridge"
  conns :: "connection list"
  next_id :: u64
  tcp_server :: server_state
  ws_server :: server_state
  grpc_server :: server_state
  rx_threads :: "(string \<times> rx_state) list"
  ticking :: "(string list \<times> u64) option"
  config :: args
  cancelled :: bool
  main :: main_state

text \<open>\<open>main\<close> up to the first address: nothing is spawned yet but the receivers and the generator.\<close>

definition boot :: "('sid, 'eid, 'cf, 'ff, 'cs, 'fs, 'f, 'w) env \<Rightarrow> args \<Rightarrow> 'w \<Rightarrow> 'w daemon" where
  "boot env args w =
     (let (st, w') = startup (ports_of env) (fake args) w
      in \<lparr>core = new_bridge w', conns = [], next_id = NEXT_CONN_ID,
          tcp_server = NotSpawned, ws_server = NotSpawned, grpc_server = NotSpawned,
          rx_threads = map (\<lambda>iface. (iface, RxOpening)) (receivers st),
          ticking = generator st, config = args, cancelled = False, main = Spawning Tcp\<rparr>)"

text \<open>
  The actions of the daemon's tasks. \<open>Bound\<close>: a server's bind succeeded or failed. \<open>ServeFailed\<close>:
  \<open>accept\<close>, or the library's serve loop, returned an error. \<open>ServerCancelled\<close>: a server task saw the
  token. \<open>MainStep\<close>: \<open>main\<close> goes on.
\<close>

datatype ('ff, 'f) action =
    Bound server bool
  | ServeFailed server
  | ServerCancelled server
  | Accept
  | Peek nat "(string, bytes) result"
  | Upgrade string
  | GrpcSubscribe "string list"
  | GrpcListIfaces
  | GrpcSendFrame string u32 bool bool bool string
  | ReadClient nat client_input
  | WriteClient nat io
  | RecvBus nat io
  | TestFilters nat io
  | RxOpen nat
  | RxRead nat "('ff, 'f) rx_read"
  | Tick "nat \<Rightarrow> int"
  | CtrlC
  | MainStep

fun server_of :: "server \<Rightarrow> 'w daemon \<Rightarrow> server_state" where
  "server_of Tcp st = tcp_server st"
| "server_of Ws st = ws_server st"
| "server_of Grpc st = grpc_server st"

fun set_server :: "server \<Rightarrow> server_state \<Rightarrow> 'w daemon \<Rightarrow> 'w daemon" where
  "set_server Tcp x st = st\<lparr>tcp_server := x\<rparr>"
| "set_server Ws x st = st\<lparr>ws_server := x\<rparr>"
| "set_server Grpc x st = st\<lparr>grpc_server := x\<rparr>"

definition add_conn :: "client_session \<Rightarrow> 'w daemon \<Rightarrow> 'w daemon" where
  "add_conn session st = st\<lparr>conns := conns st @ [open_session (core st) session]\<rparr>"

definition update_conn :: "nat \<Rightarrow> (connection \<Rightarrow> connection) \<Rightarrow> 'w daemon \<Rightarrow> 'w daemon" where
  "update_conn i f st = (if i < length (conns st) then st\<lparr>conns := (conns st)[i := f (conns st ! i)]\<rparr> else st)"

text \<open>
  The \<open>run\<close> functions of the three servers: binding, the accept loop of TCP, the routes of the WebSocket
  server, and the calls \<open>tonic\<close> makes. An error of \<open>bind\<close>, \<open>accept\<close> or the library's \<open>serve\<close> ends the
  function, and its task with it.
\<close>

definition bind_server :: "server \<Rightarrow> bool \<Rightarrow> 'w daemon \<Rightarrow> 'w daemon" where
  [simp]: "bind_server s ok st =
     (if server_of s st = Binding then set_server s (if ok then Serving else Over) st else st)"

definition serve_failed :: "server \<Rightarrow> 'w daemon \<Rightarrow> 'w daemon" where
  [simp]: "serve_failed s st = (if server_of s st = Serving then set_server s Over st else st)"

definition accept_client :: "'w daemon \<Rightarrow> 'w daemon" where
  [simp]: "accept_client st =
     (if tcp_server st = Serving
      then (let (conn_id, counter) = next_conn_id (next_id st) in add_conn Peeking (st\<lparr>next_id := counter\<rparr>))
      else st)"

definition upgrade_client :: "string \<Rightarrow> 'w daemon \<Rightarrow> 'w daemon" where
  [simp]: "upgrade_client path st =
     (if ws_server st = Serving
      then (case ws_route path of None \<Rightarrow> st | Some m \<Rightarrow> add_conn (upgraded m) st)
      else st)"

text \<open>
  The rest of \<open>main\<close>: the servers are spawned one after the other, an address that does not parse ends
  \<open>main\<close> with the error, and after the third it waits for the token, aborts the servers and returns.
\<close>

fun bind_address :: "server \<Rightarrow> args \<Rightarrow> string" where
  "bind_address Tcp args = tcp_bind args"
| "bind_address Ws args = ws_bind args"
| "bind_address Grpc args = grpc_bind args"

fun after_server :: "server \<Rightarrow> main_state" where
  "after_server Tcp = Spawning Ws"
| "after_server Ws = Spawning Grpc"
| "after_server Grpc = Waiting"

definition main_step :: "(string \<Rightarrow> (string, unit) result) \<Rightarrow> 'w daemon \<Rightarrow> 'w daemon" where
  "main_step parse st =
     (case main st of
        Spawning s \<Rightarrow>
          (case parse (bind_address s (config st)) of
             Inl e \<Rightarrow> st\<lparr>main := Returned (Inl e)\<rparr>
           | Inr _ \<Rightarrow> (set_server s Binding st)\<lparr>main := after_server s\<rparr>)
      | Waiting \<Rightarrow>
          if cancelled st
          then (set_server Tcp Over (set_server Ws Over (set_server Grpc Over st)))\<lparr>main := Returned (Inr ())\<rparr>
          else st
      | Returned r \<Rightarrow> st)"

definition grpc_call :: "('w daemon \<Rightarrow> 'w daemon) \<Rightarrow> 'w daemon \<Rightarrow> 'w daemon" where
  [simp]: "grpc_call f st = (if grpc_server st = Serving then f st else st)"

text \<open>
  The asynchronous tasks and \<open>main\<close>, which run until \<open>main\<close> returns and the runtime is dropped. \<open>CtrlC\<close>
  is the watcher that cancels the token, spawned first of all.
\<close>

fun task_step :: "('sid, 'eid, 'cf, 'ff, 'cs, 'fs, 'f, 'w) env \<Rightarrow> ('ff, 'f) action \<Rightarrow> 'w daemon \<Rightarrow> 'w daemon" where
  "task_step env (Bound s ok) st = bind_server s ok st"
| "task_step env (ServeFailed s) st = serve_failed s st"
| "task_step env (ServerCancelled s) st =
     (if cancelled st \<and> server_of s st \<noteq> NotSpawned then set_server s Over st else st)"
| "task_step env Accept st = accept_client st"
| "task_step env (Peek i peek) st =
     update_conn i (\<lambda>c. if client c = Peeking then open_session (core st) (peeked peek) else c) st"
| "task_step env (Upgrade path) st = upgrade_client path st"
| "task_step env (GrpcSubscribe ifaces) st = grpc_call (add_conn (GrpcStream (set ifaces) [])) st"
| "task_step env GrpcListIfaces st =
     grpc_call (core_update (\<lambda>d. snd (grpc_list_ifaces (ports_of env) (debug_str env) d))) st"
| "task_step env (GrpcSendFrame iface i is_fd brs esi data_hex) st =
     grpc_call (core_update (\<lambda>d. snd (grpc_send_frame (ports_of env) (debug_str env) iface i is_fd brs esi data_hex d))) st"
| "task_step env (ReadClient i input) st =
     (if i < length (conns st)
      then (let (session, d) = read_client env input (client (conns st ! i), core st)
            in st\<lparr>conns := (conns st)[i := (conns st ! i)\<lparr>client := session\<rparr>], core := d\<rparr>)
      else st)"
| "task_step env (WriteClient i io) st = update_conn i (client_update (write_client (serde_json env) (Recv io))) st"
| "task_step env (RecvBus i io) st = update_conn i (recv_client env io (core st)) st"
| "task_step env (TestFilters i io) st = update_conn i (client_update (test_filters (serde_json env) io)) st"
| "task_step env (Tick clk) st =
     (case ticking st of
        None \<Rightarrow> st
      | Some (ifaces, counter) \<Rightarrow>
          (let (counter', d) = fake_tick ifaces clk (counter, core st)
           in st\<lparr>core := d, ticking := Some (ifaces, counter')\<rparr>))"
| "task_step env CtrlC st = st\<lparr>cancelled := True\<rparr>"
| "task_step env MainStep st = main_step (parse_addr env) st"
| "task_step env _ st = st"

definition running :: "'w daemon \<Rightarrow> bool" where
  "running st \<longleftrightarrow> (case main st of Returned r \<Rightarrow> False | _ \<Rightarrow> True)"

text \<open>The receiver threads are blocking tasks: nothing stops them when \<open>main\<close> returns.\<close>

fun thread_step :: "('sid, 'eid, 'cf, 'ff, 'cs, 'fs, 'f, 'w) env \<Rightarrow> ('ff, 'f) action \<Rightarrow> 'w daemon \<Rightarrow> 'w daemon" where
  "thread_step env (RxOpen k) st =
     (if k < length (rx_threads st) \<and> snd (rx_threads st ! k) = RxOpening
      then (let iface = fst (rx_threads st ! k); (state, w) = rx_open (socketcan_lib env) iface (world (core st))
            in st\<lparr>rx_threads := (rx_threads st)[k := (iface, state)], core := (core st)\<lparr>world := w\<rparr>\<rparr>)
      else st)"
| "thread_step env (RxRead k input) st =
     (if k < length (rx_threads st)
      then (let (iface, state) = rx_threads st ! k; (state', d) = rx_step env input iface state (core st)
            in st\<lparr>rx_threads := (rx_threads st)[k := (iface, state')], core := d\<rparr>)
      else st)"
| "thread_step env _ st = st"

definition daemon_step :: "('sid, 'eid, 'cf, 'ff, 'cs, 'fs, 'f, 'w) env \<Rightarrow> ('ff, 'f) action \<Rightarrow> 'w daemon \<Rightarrow> 'w daemon" where
  "daemon_step env a st = thread_step env a (if running st then task_step env a st else st)"

definition daemon_run :: "('sid, 'eid, 'cf, 'ff, 'cs, 'fs, 'f, 'w) env \<Rightarrow> args \<Rightarrow> 'w \<Rightarrow> ('ff, 'f) action list \<Rightarrow> 'w daemon" where
  "daemon_run env args w acts = fold (daemon_step env) acts (boot env args w)"

text \<open>The states a run can reach.\<close>

inductive daemon_reach :: "('sid, 'eid, 'cf, 'ff, 'cs, 'fs, 'f, 'w) env \<Rightarrow> args \<Rightarrow> 'w daemon \<Rightarrow> bool" for env args where
  boot: "daemon_reach env args (boot env args w)"
| step: "daemon_reach env args st \<Longrightarrow> daemon_reach env args (daemon_step env a st)"

lemma daemon_run_reach: "daemon_reach env args (daemon_run env args w acts)"
proof -
  have "daemon_reach env args st \<Longrightarrow> daemon_reach env args (fold (daemon_step env) acts st)" for st
    by (induction acts arbitrary: st) (simp_all add: daemon_reach.step)
  then show ?thesis by (simp add: daemon_run_def daemon_reach.boot)
qed

end
