(* ===== verification/Daemon_Invariants.thy ===== *)
theory Daemon_Invariants
  imports Daemon_System
begin

text \<open>
  What holds of the running daemon: every session in it is a session as the transport theories
  describe it, every client is shown a subsequence of the published events, and every published event
  has a source.
\<close>

section \<open>Where events come from\<close>

text \<open>The event of a frame that was read on the socket a thread has open; a failed read has none.\<close>

definition rx_event :: "('sid, 'eid, 'cf, 'ff, 'cs, 'fs, 'f, 'w) env \<Rightarrow> string \<times> rx_state \<Rightarrow> ('ff, 'f) rx_read
    \<Rightarrow> frame_event list" where
  "rx_event env thread input =
     (case (snd thread, input) of
        (RxFd, ReadFd (Inr f) t) \<Rightarrow>
          [\<lparr>ev_ts_ms = Service.now_ms t, ev_iface = fst thread, ev_dir = Rx,
            ev_id = id_to_u32 (socketcan_lib env) (CanFdFrame_id (socketcan_lib env) f), ev_is_fd = True,
            ev_data = CanFdFrame_data (socketcan_lib env) f\<rparr>]
      | (RxClassic, ReadClassic (Inr f) t) \<Rightarrow>
          (case as_normal env f of
             None \<Rightarrow> []
           | Some cf \<Rightarrow>
               [\<lparr>ev_ts_ms = Service.now_ms t, ev_iface = fst thread, ev_dir = Rx,
                 ev_id = id_to_u32 (socketcan_lib env) (CanFrame_id (socketcan_lib env) cf), ev_is_fd = False,
                 ev_data = CanFrame_data (socketcan_lib env) cf\<rparr>])
      | _ \<Rightarrow> [])"

text \<open>The events of a tick of the generator.\<close>

definition tick_events :: "string list \<Rightarrow> u64 \<Rightarrow> (nat \<Rightarrow> int) \<Rightarrow> frame_event list" where
  "tick_events ifaces counter clk =
     map (\<lambda>(idx, iface). \<lparr>ev_ts_ms = Service.now_ms (clk idx), ev_iface = iface, ev_dir = Rx, ev_id = 0x123, ev_is_fd = False,
            ev_data = le_bytes 3 (counter + 1) @ [word_of_nat idx]\<rparr>) (enumerate 0 ifaces)"

text \<open>
  The events an action puts on the bus, by what they stand for: for a request of a client at most the
  one frame the transmit port accepted, for a read and a tick exactly what was read and generated.
\<close>

definition sources :: "('sid, 'eid, 'cf, 'ff, 'cs, 'fs, 'f, 'w) env \<Rightarrow> ('ff, 'f) action \<Rightarrow> 'w daemon \<Rightarrow> 'w daemon
    \<Rightarrow> frame_event list \<Rightarrow> bool" where
  "sources env a st st' evs =
     (case a of
        ReadClient i input \<Rightarrow> evs = [] \<or> running st \<and> (\<exists>ev. evs = [ev] \<and> transmitted (ports_of env) (core st) (core st') ev)
      | GrpcSendFrame iface i is_fd brs esi data_hex \<Rightarrow>
          evs = [] \<or> running st \<and> (\<exists>ev. evs = [ev] \<and> transmitted (ports_of env) (core st) (core st') ev)
      | RxRead k input \<Rightarrow> evs = (if k < length (rx_threads st) then rx_event env (rx_threads st ! k) input else [])
      | Tick clk \<Rightarrow> evs = (if running st then (case ticking st of None \<Rightarrow> [] | Some (ifaces, counter) \<Rightarrow> tick_events ifaces counter clk) else [])
      | _ \<Rightarrow> evs = [])"

lemma serviced_events:
  "serviced ports d d' \<Longrightarrow> \<exists>evs. published d' = published d @ evs
     \<and> (evs = [] \<or> (\<exists>ev. evs = [ev] \<and> transmitted ports d d' ev))"
  using serviced_publishes by fastforce

lemma read_client_serviced:
  assumes "read_client env input (c, d) = (c', d')"
  shows "serviced (ports_of env) d d'"
  using assms
  by (cases "(env, input, (c, d))" rule: read_client.cases)
    (auto simp: map_prod_def dest: reader_effect ws_reader_effect jsonl_reader_effect jws_reader_effect
      split: prod.splits)

lemma grpc_serviced:
  "serviced ports d (snd (grpc_list_ifaces ports dbg_str d))"
  "serviced ports d (snd (grpc_send_frame ports dbg_str iface i is_fd brs esi data_hex d))"
  by (auto simp: grpc_list_ifaces_def grpc_send_frame_def Let_def case_prod_beta serviced_def simp del: handle.simps)

lemma rx_step_events:
  assumes "rx_step env input iface state d = (state', d')"
  shows "published d' = published d @ rx_event env (iface, state) input"
  using assms
  by (auto simp: rx_step_def rx_fd_step_def rx_classic_step_def publish_frame_def rx_event_def
      split: rx_state.splits rx_read.splits sum.splits option.splits)

lemma fake_tick_events:
  assumes "fake_tick ifaces clk (counter, d) = (counter', d')"
  shows "published d' = published d @ tick_events ifaces counter clk"
proof -
  have "(ucast (word_of_nat idx :: u64) :: u8) = word_of_nat idx" for idx
    by (simp add: word_eq_iff_unsigned [where 'a = nat] unsigned_ucast_eq unat_of_nat take_bit_eq_mod mod_mod_cancel)
  then have "tick_events ifaces counter clk = map (\<lambda>(idx, iface). fake_event (counter + 1) (clk idx) (idx, iface)) (enumerate 0 ifaces)"
    by (simp add: tick_events_def fake_event_def fake_data_le_bytes)
  then show ?thesis
    using assms foldl_publish [of "\<lambda>(idx, iface). fake_event (counter + 1) (clk idx) (idx, iface)" d "enumerate 0 ifaces"]
    by (auto simp: fake_tick_def Let_def case_prod_unfold)
qed

lemma core_add_conn [simp]: "core (add_conn session st) = core st"
  by (simp add: add_conn_def)

lemma core_update_conn [simp]: "core (update_conn i f st) = core st"
  by (simp add: update_conn_def)

lemma core_set_server [simp]: "core (set_server s x st) = core st"
  by (cases s) simp_all

lemma core_main_step [simp]: "core (main_step parse st) = core st"
  by (simp add: main_step_def split: main_state.split sum.split)

lemma task_step_sources:
  assumes "running st" and "\<forall>k input. a \<noteq> RxRead k input"
  shows "\<exists>evs. published (core (task_step env a st)) = published (core st) @ evs \<and> sources env a st (task_step env a st) evs"
proof (cases a)
  case (ReadClient i input)
  show ?thesis
  proof (cases "i < length (conns st)")
    case True
    obtain session d where rd: "read_client env input (client (conns st ! i), core st) = (session, d)"
      by (rule prod.exhaust)
    from serviced_events [OF read_client_serviced [OF rd]] rd True ReadClient assms(1) show ?thesis
      by (auto simp: sources_def)
  qed (simp add: ReadClient sources_def)
next
  case (GrpcSendFrame iface i is_fd brs esi data_hex)
  from serviced_events [OF grpc_serviced(2)] GrpcSendFrame assms(1) show ?thesis by (auto simp: sources_def)
next
  case GrpcListIfaces
  have "published (snd (grpc_list_ifaces (ports_of env) (debug_str env) (core st))) = published (core st)"
    by (auto simp: grpc_list_ifaces_def Let_def split: prod.splits sum.splits)
  with GrpcListIfaces show ?thesis by (simp add: sources_def)
next
  case (Tick clk)
  show ?thesis
  proof (cases "ticking st")
    case (Some t)
    obtain ifaces counter where t: "t = (ifaces, counter)" by (rule prod.exhaust)
    obtain counter' d where tick: "fake_tick ifaces clk (counter, core st) = (counter', d)" by (rule prod.exhaust)
    from fake_tick_events [OF tick] tick Some t Tick assms(1) show ?thesis by (auto simp: sources_def)
  qed (simp add: Tick sources_def)
qed (use assms(2) in \<open>auto simp: sources_def next_conn_id_def split: option.split\<close>)

lemma task_step_publishes: "running st \<Longrightarrow> \<exists>evs. published (core (task_step env a st)) = published (core st) @ evs"
  using task_step_sources [of st a env] by (cases "\<exists>k input. a = RxRead k input") auto

lemma thread_step_sources:
  "published (core (thread_step env (RxRead k input) st)) = published (core st)
     @ (if k < length (rx_threads st) then rx_event env (rx_threads st ! k) input else [])"
proof -
  obtain iface state where t: "rx_threads st ! k = (iface, state)" by (rule prod.exhaust)
  obtain state' d where "rx_step env input iface state (core st) = (state', d)" by (rule prod.exhaust)
  from rx_step_events [OF this] this t show ?thesis by simp
qed

lemma published_thread_step: "\<forall>k input. a \<noteq> RxRead k input \<Longrightarrow> published (core (thread_step env a st)) = published (core st)"
  by (cases a) (auto simp: Let_def split: prod.splits)

lemma daemon_step_sources:
  "\<exists>evs. published (core (daemon_step env a st)) = published (core st) @ evs \<and> sources env a st (daemon_step env a st) evs"
proof (cases "\<exists>k input. a = RxRead k input")
  case True
  then obtain k input where a: "a = RxRead k input" by blast
  then have "task_step env a st = st" by simp
  with thread_step_sources [of env k input st] a show ?thesis
    by (simp add: daemon_step_def sources_def del: thread_step.simps)
next
  case other: False
  show ?thesis
  proof (cases "\<exists>k. a = RxOpen k")
    case True
    then show ?thesis using published_thread_step [of a env] by (auto simp: daemon_step_def sources_def)
  next
    case False
    with other have "thread_step env a s = s" for s by (cases a) auto
    with task_step_sources [of st a env] other show ?thesis
      by (cases "running st") (auto simp: daemon_step_def sources_def split: action.split)
  qed
qed

section \<open>Sessions in the daemon\<close>

text \<open>A session of the daemon is one its transport's theory reaches, with the bridge as it is.\<close>

fun session_reach :: "('sid, 'eid, 'cf, 'ff, 'cs, 'fs, 'f, 'w) env \<Rightarrow> 'w bridge \<Rightarrow> client_session \<Rightarrow> bool" where
  "session_reach env d (TcpBinary s) \<longleftrightarrow> (\<exists>rb. Tcp_Binary.reach (ports_of env) (debug_str env) rb s d)"
| "session_reach env d (TcpJsonl s) \<longleftrightarrow> (\<exists>ls. Tcp_Jsonl.reach (ports_of env) (serde_json env) (debug_str env) ls s d)"
| "session_reach env d (WsBinary s) \<longleftrightarrow> (\<exists>rb. Ws_Binary.reach (ports_of env) (debug_str env) rb s d)"
| "session_reach env d (WsJsonl s) \<longleftrightarrow> (\<exists>ms. Ws_Jsonl.reach (ports_of env) (serde_json env) (debug_str env) ms s d)"
| "session_reach env d _ \<longleftrightarrow> True"

text \<open>What the client has been sent shows a subsequence of the given events.\<close>

fun delivered :: "json \<Rightarrow> frame_event list \<Rightarrow> client_session \<Rightarrow> bool" where
  "delivered json fs (TcpBinary s) \<longleftrightarrow>
     written (\<lambda>r. Some (daemon_packet r)) Tcp_Binary.frame_event_to_daemon_binary binary_reply fs s"
| "delivered json fs (TcpJsonl s) \<longleftrightarrow>
     written (line_of json) frame_event_to_json_response json_answer fs s"
| "delivered json fs (WsBinary s) \<longleftrightarrow>
     written (\<lambda>r. Some (message_of r)) Ws_Binary.frame_event_to_daemon_binary binary_reply fs s"
| "delivered json fs (WsJsonl s) \<longleftrightarrow> jws_written json fs s"
| "delivered json fs (GrpcStream ifaces out) \<longleftrightarrow>
     out = map (\<lambda>ev. Inr (domain_frame_to_pb ev)) (filter (\<lambda>ev. ev_iface ev \<in> ifaces) fs)"
| "delivered json fs Peeking \<longleftrightarrow> True"

lemma session_reach_others: "session_reach env d c \<Longrightarrow> session_reach env d' c"
  by (cases c) (auto intro: Tcp_Binary.reach.others Tcp_Jsonl.reach.others Ws_Binary.reach.others Ws_Jsonl.reach.others)

lemma session_reach_read:
  assumes "session_reach env d c" and "read_client env input (c, d) = (c', d')"
  shows "session_reach env d' c'"
  using assms
  by (cases "(env, input, (c, d))" rule: read_client.cases)
    (auto simp: map_prod_def split: prod.splits;
      blast intro: Tcp_Binary.reach.reader Tcp_Jsonl.reach.reader Ws_Binary.reach.reader Ws_Jsonl.reach.reader)+

lemma session_reach_write: "session_reach env d c \<Longrightarrow> session_reach env d (write_client (serde_json env) input c)"
  by (cases "(serde_json env, input, c)" rule: write_client.cases)
    (auto intro: Tcp_Binary.reach.writer Tcp_Jsonl.reach.writer Ws_Binary.reach.writer Ws_Jsonl.reach.writer)

lemma session_reach_filters: "session_reach env d c \<Longrightarrow> session_reach env d (test_filters (serde_json env) io c)"
  by (cases c) (auto intro: Ws_Jsonl.reach.writer)

lemma jws_written_sends:
  "jws_written json fs s \<Longrightarrow> only_sends json_answer s s' \<Longrightarrow> pending s' = pending s \<Longrightarrow> jws_written json fs s'"
  unfolding jws_written_def using written_only_sends by fastforce

lemma delivered_read:
  assumes "delivered (serde_json env) fs c" and "read_client env input (c, d) = (c', d')"
  shows "delivered (serde_json env) fs c'"
  using assms
  by (cases "(env, input, (c, d))" rule: read_client.cases)
    (auto simp: map_prod_def split: prod.splits
      dest!: reader_effect ws_reader_effect jsonl_reader_effect jws_reader_effect
      intro: written_only_sends jws_written_sends)

lemma delivered_write:
  "delivered json fs c \<Longrightarrow> delivered json (fs @ bus_frames input) (write_client json input c)"
proof (cases "(json, input, c)" rule: write_client.cases)
  case (4 json' input' s)
  then show "delivered json fs c \<Longrightarrow> ?thesis" using jws_written_writer [of json fs s "Input input"] by simp
qed (auto intro: tcp.written_wstep jsonl.written_wstep ws.written_wstep simp: subscribe_item_def)

lemma delivered_filters: "delivered json fs c \<Longrightarrow> delivered json fs (test_filters json io c)"
proof (cases c)
  case (WsJsonl s)
  then show "delivered json fs c \<Longrightarrow> ?thesis" using jws_written_writer [of json fs s "CheckFilters io"] by simp
qed simp_all

section \<open>The invariant\<close>

text \<open>
  Of one connection: its session is a session of its transport; its receiver got a subsequence of what
  was published since it subscribed, all of it but what it was told it missed; and its client was
  shown a subsequence of that.
\<close>

definition conn_inv :: "('sid, 'eid, 'cf, 'ff, 'cs, 'fs, 'f, 'w) env \<Rightarrow> 'w bridge \<Rightarrow> connection \<Rightarrow> bool" where
  "conn_inv env d c \<longleftrightarrow> session_reach env d (client c) \<and> receiver_ok (published d) (bus c)
     \<and> delivered (serde_json env) (seen (bus c)) (client c)"

definition daemon_inv :: "('sid, 'eid, 'cf, 'ff, 'cs, 'fs, 'f, 'w) env \<Rightarrow> 'w daemon \<Rightarrow> bool" where
  "daemon_inv env st \<longleftrightarrow> (\<forall>c\<in>set (conns st). conn_inv env (core st) c)"

lemma conn_inv_core:
  "conn_inv env d c \<Longrightarrow> published d' = published d @ evs \<Longrightarrow> conn_inv env d' c"
  unfolding conn_inv_def using session_reach_others receiver_ok_publish by fastforce

lemma conn_inv_open:
  assumes "session_reach env d session" and "delivered (serde_json env) [] session"
  shows "conn_inv env d (open_session d session)"
  using assms receiver_ok_subscribe [of d] by (simp add: conn_inv_def open_session_def subscribe_frames_def)

lemma start_written:
  "written enc to_resp binary_reply [] Tcp_Binary.session_start"
  "written enc' to_resp' json_answer [] Tcp_Jsonl.session_start"
  "written enc'' to_resp'' binary_reply [] Ws_Binary.session_start"
  "jws_written json [] Ws_Jsonl.session_start"
  by (auto intro!: written_start jws_writtenI [of _ "[]"]
      simp: Tcp_Binary.session_start_def Tcp_Jsonl.session_start_def Ws_Binary.session_start_def Ws_Jsonl.session_start_def
        Tcp_Binary.hello_ack_def Tcp_Jsonl.hello_ack_def Ws_Jsonl.hello_ack_def enqueue_def binary_reply_def json_answer_def)

lemma conn_inv_peeked: "conn_inv env d (open_session d (peeked peek))"
  by (rule conn_inv_open)
    (auto simp: peeked_def start_written intro: Tcp_Binary.reach.start Tcp_Jsonl.reach.start split: mode.split)

lemma conn_inv_upgraded: "conn_inv env d (open_session d (upgraded m))"
  by (rule conn_inv_open)
    (auto simp: upgraded_def start_written intro: Ws_Binary.reach.start Ws_Jsonl.reach.start split: mode.split)

lemma conn_inv_read:
  assumes "conn_inv env d c" and "read_client env input (client c, d) = (session, d')"
  shows "conn_inv env d' (c\<lparr>client := session\<rparr>)"
proof -
  obtain evs where "published d' = published d @ evs"
    using serviced_events [OF read_client_serviced [OF assms(2)]] by blast
  with assms(1) session_reach_read [OF _ assms(2)] delivered_read [OF _ assms(2)] show ?thesis
    by (simp add: conn_inv_def receiver_ok_publish)
qed

lemma conn_inv_write: "conn_inv env d c \<Longrightarrow> conn_inv env d (client_update (write_client (serde_json env) (Recv io)) c)"
  using session_reach_write [of env d "client c" "Recv io"]
    delivered_write [of "serde_json env" "seen (bus c)" "client c" "Recv io"]
  by (simp add: conn_inv_def)

lemma conn_inv_filters: "conn_inv env d c \<Longrightarrow> conn_inv env d (client_update (test_filters (serde_json env) io) c)"
  by (simp add: conn_inv_def session_reach_filters delivered_filters)

lemma conn_inv_recv:
  assumes "bus_documented (broadcast_recv env)" and "conn_inv env d c"
  shows "conn_inv env d (recv_client env io d c)"
proof (cases "listening (client c)")
  case True
  obtain res r where rc: "receive (broadcast_recv env) d (bus c) = (res, r)" by (rule prod.exhaust)
  have ok: "receiver_ok (published d) r" "seen r = seen (bus c) @ received res"
    using receiver_ok_receive [OF assms(1) _ rc] assms(2) by (simp_all add: conn_inv_def)
  have w: "conn_inv env d \<lparr>client = write_client (serde_json env) input (client c), bus = r\<rparr>"
    if "bus_frames input = received res" for input
    using that assms(2) ok session_reach_write [of env d "client c" input]
      delivered_write [of "serde_json env" "seen (bus c)" "client c" input]
    by (simp add: conn_inv_def)
  show ?thesis
    using True rc w assms(2) by (cases res) (simp_all add: recv_client_def)
qed (use assms in \<open>simp add: recv_client_def\<close>)

lemma daemon_inv_update:
  assumes "daemon_inv env st" and "\<And>c. conn_inv env (core st) c \<Longrightarrow> conn_inv env (core st) (f c)"
  shows "daemon_inv env (update_conn i f st)"
  using assms by (auto simp: daemon_inv_def update_conn_def dest!: set_update_subset_insert [THEN subsetD])

lemma daemon_inv_add:
  assumes "daemon_inv env st" and "conn_inv env (core st) (open_session (core st) session)"
  shows "daemon_inv env (add_conn session st)"
  using assms by (auto simp: daemon_inv_def add_conn_def)

lemma daemon_inv_core:
  assumes "daemon_inv env st" and "published (core st') = published (core st) @ evs" and "conns st' = conns st"
  shows "daemon_inv env st'"
  using assms conn_inv_core by (fastforce simp: daemon_inv_def)

lemma conns_set_server [simp]: "conns (set_server s x st) = conns st"
  by (cases s) simp_all

lemma conns_main_step [simp]: "conns (main_step parse st) = conns st"
  by (simp add: main_step_def split: main_state.split sum.split)

lemma daemon_inv_task:
  assumes "bus_documented (broadcast_recv env)" and "daemon_inv env st" and "running st"
  shows "daemon_inv env (task_step env a st)"
proof -
  have same: "daemon_inv env st'" if "core st' = core st" "conns st' = conns st" for st'
    using assms(2) that by (simp add: daemon_inv_def)
  obtain evs where evs: "published (core (task_step env a st)) = published (core st) @ evs"
    using task_step_publishes [OF assms(3)] by blast
  show ?thesis
  proof (cases a)
    case (Peek i peek)
    with assms(2) conn_inv_peeked show ?thesis by (auto intro!: daemon_inv_update)
  next
    case (ReadClient i input)
    show ?thesis
    proof (cases "i < length (conns st)")
      case True
      obtain session d where rd: "read_client env input (client (conns st ! i), core st) = (session, d)"
        by (rule prod.exhaust)
      have "conn_inv env d c" if "c \<in> set (conns st)" for c
        using conn_inv_core [of env "core st" c d evs] evs assms(2) that rd True ReadClient by (simp add: daemon_inv_def)
      with conn_inv_read [OF _ rd] assms(2) rd True ReadClient show ?thesis
        by (auto simp: daemon_inv_def dest!: set_update_subset_insert [THEN subsetD])
    qed (use assms(2) ReadClient in simp)
  next
    case Accept
    have "conn_inv env (core st) (open_session (core st) Peeking)" by (rule conn_inv_open) simp_all
    moreover have "daemon_inv env (st\<lparr>next_id := n\<rparr>)" for n by (rule same) simp_all
    ultimately show ?thesis using Accept assms(2) by (auto simp: next_conn_id_def intro: daemon_inv_add)
  next
    case (Upgrade path)
    with assms(2) conn_inv_upgraded show ?thesis by (auto intro: daemon_inv_add split: option.split)
  next
    case (GrpcSubscribe ifaces)
    have "conn_inv env (core st) (open_session (core st) (GrpcStream (set ifaces) []))" by (rule conn_inv_open) simp_all
    with GrpcSubscribe assms(2) show ?thesis by (auto intro: daemon_inv_add)
  next
    case (Tick clk)
    with daemon_inv_core [OF assms(2) evs] show ?thesis by (auto simp: Let_def split: option.splits prod.splits)
  qed (use assms same evs daemon_inv_core [OF assms(2) evs] in
      \<open>auto intro: daemon_inv_update conn_inv_write conn_inv_filters conn_inv_recv\<close>)
qed

lemma daemon_inv_thread:
  assumes "daemon_inv env st"
  shows "daemon_inv env (thread_step env a st)"
proof -
  obtain evs where evs: "published (core (thread_step env a st)) = published (core st) @ evs"
    using thread_step_sources [of env] published_thread_step [of a env st] by (cases "\<exists>k input. a = RxRead k input") auto
  have "conns (thread_step env a st) = conns st" by (cases a) (auto simp: Let_def split: prod.splits)
  from daemon_inv_core [OF assms evs this] show ?thesis .
qed

lemma daemon_inv_boot: "daemon_inv env (boot env args w)"
  by (simp add: daemon_inv_def boot_def split: prod.split)

lemma daemon_reach_inv:
  assumes "daemon_reach env args st" and "bus_documented (broadcast_recv env)"
  shows "daemon_inv env st"
  using assms
  by (induction rule: daemon_reach.induct)
    (auto simp: daemon_step_def daemon_inv_boot intro: daemon_inv_task daemon_inv_thread)

section \<open>Properties\<close>

text \<open>Every session in the running daemon, whatever the other clients, the interfaces and the servers do
  meanwhile, is a session in the sense of its transport: all that the transport theories prove of
  reachable sessions holds of it.\<close>

lemma daemon_sessions_reachable:
  assumes "daemon_reach env args st" and "bus_documented (broadcast_recv env)" and "c \<in> set (conns st)"
  shows "session_reach env (core st) (client c)"
  using daemon_reach_inv [OF assms(1,2)] assms(3) by (simp add: daemon_inv_def conn_inv_def)

text \<open>C9: Nothing appears on the bus by itself, and nothing that was read is lost on the way. A step of the daemon
  appends the transmit event of the one frame a client or a gRPC call sent and the transmit port
  accepted, with the time of it; or exactly the frame a receiver thread read on the socket it has open,
  with its identifier, kind and payload (none if the read failed or is not a data frame); or exactly
  one numbered frame per interface of the fake generator; or nothing.\<close>

theorem bus_events_have_sources:
  "\<exists>evs. published (core (daemon_step env a st)) = published (core st) @ evs \<and> sources env a st (daemon_step env a st) evs"
  by (rule daemon_step_sources)

end
