(* ===== verification/Daemon_Lifecycle.thy ===== *)
theory Daemon_Lifecycle
  imports Daemon_Invariants
begin

text \<open>
  How long the daemon runs: what makes \<open>main\<close> return, what a failed server means, and what goes on after
  \<open>main\<close> has returned. The last section has a concrete daemon, on which the properties of the running daemon are
  evaluated.
\<close>

section \<open>What actions leave alone\<close>

lemma main_set_server [simp]: "main (set_server s x st) = main st"
  by (cases s) simp_all

lemma main_add_conn [simp]: "main (add_conn session st) = main st"
  by (simp add: add_conn_def)

lemma main_update_conn [simp]: "main (update_conn i f st) = main st"
  by (simp add: update_conn_def)

lemma main_thread_step [simp]: "main (thread_step env a st) = main st"
  by (cases a) (auto simp: Let_def split: prod.splits)

lemma main_task_step:
  "main (task_step env a st) = (case a of MainStep \<Rightarrow> main (main_step (parse_addr env) st) | _ \<Rightarrow> main st)"
  by (cases a) (auto simp: Let_def next_conn_id_def split: option.split prod.split)

lemma main_step_returned: "\<not> running st \<Longrightarrow> main_step parse st = st"
  by (simp add: main_step_def running_def split: main_state.splits)

lemma main_daemon_step:
  "main (daemon_step env a st) = (case a of MainStep \<Rightarrow> main (main_step (parse_addr env) st) | _ \<Rightarrow> main st)"
  by (cases "running st") (auto simp: daemon_step_def main_task_step main_step_returned split: action.split)

lemma config_set_server [simp]: "config (set_server s x st) = config st" "cancelled (set_server s x st) = cancelled st"
  by (cases s; simp)+

lemma config_daemon_step [simp]: "config (daemon_step env a st) = config st"
  by (cases a) (auto simp: daemon_step_def Let_def next_conn_id_def add_conn_def update_conn_def main_step_def
      split: option.split prod.split main_state.split sum.split)

lemma cancelled_daemon_step:
  "cancelled (daemon_step env a st) = (cancelled st \<or> a = CtrlC \<and> running st)"
  by (cases a) (auto simp: daemon_step_def Let_def next_conn_id_def add_conn_def update_conn_def main_step_def
      split: option.split prod.split main_state.split sum.split)

lemma server_set_server [simp]: "server_of s (set_server s' x st) = (if s = s' then x else server_of s st)"
  by (cases s; cases s') simp_all

lemma server_add_conn [simp]: "server_of s (add_conn session st) = server_of s st"
  by (cases s) (simp_all add: add_conn_def)

lemma server_update_conn [simp]: "server_of s (update_conn i f st) = server_of s st"
  by (cases s) (simp_all add: update_conn_def)

lemma server_fields [simp]:
  "server_of s (core_update f st) = server_of s st" "server_of s (st\<lparr>conns := cs\<rparr>) = server_of s st"
  "server_of s (st\<lparr>next_id := n\<rparr>) = server_of s st" "server_of s (st\<lparr>rx_threads := ts\<rparr>) = server_of s st"
  "server_of s (st\<lparr>ticking := t\<rparr>) = server_of s st" "server_of s (st\<lparr>main := m\<rparr>) = server_of s st"
  "server_of s (st\<lparr>cancelled := x\<rparr>) = server_of s st"
  by (cases s; simp)+

text \<open>Servers are spawned in order, so one that \<open>main\<close> has yet to spawn is not over.\<close>

fun spawned :: "server \<Rightarrow> main_state \<Rightarrow> bool" where
  "spawned s (Spawning Tcp) \<longleftrightarrow> False"
| "spawned s (Spawning Ws) \<longleftrightarrow> s = Tcp"
| "spawned s (Spawning Grpc) \<longleftrightarrow> s \<noteq> Grpc"
| "spawned s _ \<longleftrightarrow> True"

definition spawning_ok :: "'w daemon \<Rightarrow> bool" where
  "spawning_ok st \<longleftrightarrow> (\<forall>s. spawned s (main st) \<or> server_of s st = NotSpawned)"

lemma spawned_after: "spawned s (Spawning s') \<Longrightarrow> spawned s (after_server s')" "spawned s (after_server s)"
    "s \<noteq> s' \<Longrightarrow> spawned s (after_server s') \<longleftrightarrow> spawned s (Spawning s')" "\<not> spawned s (Spawning s)"
  by (cases s; cases s'; simp)+

lemma spawning_ok_main: "spawning_ok st \<Longrightarrow> spawning_ok (main_step parse st)"
  by (auto simp: spawning_ok_def main_step_def spawned_after split: main_state.split sum.split)

lemma server_task_step:
  "a \<noteq> MainStep \<Longrightarrow> server_of s st = NotSpawned \<Longrightarrow> server_of s (task_step env a st) = NotSpawned"
  "a \<noteq> MainStep \<Longrightarrow> server_of s st = Over \<Longrightarrow> server_of s (task_step env a st) = Over"
  by (cases a; auto simp: Let_def next_conn_id_def split: option.split prod.split)+

lemma server_thread_step [simp]: "server_of s (thread_step env a st) = server_of s st"
  by (cases a) (auto simp: Let_def split: prod.splits)

lemma spawning_ok_step: "spawning_ok st \<Longrightarrow> spawning_ok (daemon_step env a st)"
proof (cases "a = MainStep")
  case False
  then have "main (daemon_step env a st) = main st" by (auto simp: main_daemon_step split: action.split)
  moreover have "server_of s st = NotSpawned \<Longrightarrow> server_of s (daemon_step env a st) = NotSpawned" for s
    by (simp add: daemon_step_def server_task_step(1) [OF False] del: task_step.simps)
  ultimately show "spawning_ok st \<Longrightarrow> ?thesis" by (auto simp: spawning_ok_def)
qed (simp add: daemon_step_def spawning_ok_main)

lemma spawning_ok_boot: "spawning_ok (boot env args w)"
proof -
  have "server_of s (boot env args w) = NotSpawned" for s by (cases s) (simp_all add: boot_def split: prod.split)
  then show ?thesis by (simp add: spawning_ok_def)
qed

lemma spawning_ok_run: "spawning_ok st \<Longrightarrow> spawning_ok (fold (daemon_step env) acts st)"
  by (induction acts arbitrary: st) (simp_all add: spawning_ok_step)

lemma server_aborted [simp]: "server_of s (st\<lparr>grpc_server := Over, ws_server := Over, tcp_server := Over\<rparr>) = Over"
  by (cases s) simp_all

text \<open>A server that is over stays so.\<close>

lemma server_over_step: "spawning_ok st \<Longrightarrow> server_of s st = Over \<Longrightarrow> server_of s (daemon_step env a st) = Over"
proof (cases "a = MainStep")
  case True
  moreover assume ok: "spawning_ok st" and over: "server_of s st = Over"
  then have "spawned s (main st)" by (auto simp: spawning_ok_def)
  then have "main st \<noteq> Spawning s" using spawned_after(4) by auto
  with over have "server_of s (main_step parse st) = Over" for parse
    by (auto simp: main_step_def split: main_state.split sum.split)
  with over True show ?thesis by (simp add: daemon_step_def)
next
  case False
  then show "server_of s st = Over \<Longrightarrow> ?thesis" by (simp add: daemon_step_def server_task_step(2))
qed

lemma server_over_run:
  "spawning_ok st \<Longrightarrow> server_of s st = Over \<Longrightarrow> server_of s (fold (daemon_step env) acts st) = Over"
  by (induction acts arbitrary: st) (simp_all add: spawning_ok_step server_over_step)

section \<open>Receivers\<close>

lemma rx_set_server [simp]: "rx_threads (set_server s x st) = rx_threads st"
  by (cases s) simp_all

lemma rx_task_step [simp]: "rx_threads (task_step env a st) = rx_threads st"
  by (cases a) (auto simp: Let_def next_conn_id_def add_conn_def update_conn_def main_step_def
      split: option.split prod.split main_state.split sum.split)

text \<open>A receiver thread that has opened a socket.\<close>

definition reading :: "nat \<Rightarrow> 'w daemon \<Rightarrow> bool" where
  "reading k st \<longleftrightarrow> k < length (rx_threads st) \<and> snd (rx_threads st ! k) \<in> {RxFd, RxClassic}"

lemma rx_step_state: "fst (rx_step env input iface state d) = state"
  by (simp add: rx_step_def split: rx_state.split rx_read.split)

lemma reading_thread:
  assumes "reading k st"
  shows "k < length (rx_threads (thread_step env a st)) \<and> rx_threads (thread_step env a st) ! k = rx_threads st ! k"
proof (cases a)
  case (RxRead j input)
  obtain iface state where t: "rx_threads st ! j = (iface, state)" by (rule prod.exhaust)
  have "rx_threads (thread_step env a st) = rx_threads st"
    using rx_step_state [of env input iface state "core st"] t RxRead
    by (auto simp: split_beta list_update_same_conv)
  with assms show ?thesis by (simp add: reading_def)
qed (use assms in \<open>auto simp: reading_def Let_def nth_list_update split: prod.splits\<close>)

lemma reading_step:
  "reading k st \<Longrightarrow> k < length (rx_threads (daemon_step env a st)) \<and> rx_threads (daemon_step env a st) ! k = rx_threads st ! k"
  using reading_thread [of k "if running st then task_step env a st else st" env a]
  by (simp add: daemon_step_def reading_def)

lemma reading_run:
  "reading k st \<Longrightarrow> k < length (rx_threads (fold (daemon_step env) acts st))
     \<and> rx_threads (fold (daemon_step env) acts st) ! k = rx_threads st ! k"
proof (induction acts arbitrary: st)
  case (Cons a acts)
  note step = reading_step [OF Cons.prems, of env a]
  then have "reading k (daemon_step env a st)" using Cons.prems by (simp add: reading_def)
  from Cons.IH [OF this] step show ?case by simp
qed (simp add: reading_def)

section \<open>When main returns\<close>

text \<open>What a state of the running daemon says about how it came there.\<close>

definition main_ok :: "(string \<Rightarrow> (string, unit) result) \<Rightarrow> 'w daemon \<Rightarrow> bool" where
  "main_ok parse st \<longleftrightarrow> (case main st of
     Returned (Inl e) \<Rightarrow> \<exists>s. parse (bind_address s (config st)) = Inl e
   | Returned (Inr _) \<Rightarrow> cancelled st
   | _ \<Rightarrow> True)"

lemma main_main_step:
  "main (main_step parse st) = (case main st of
     Spawning s \<Rightarrow> (case parse (bind_address s (config st)) of Inl e \<Rightarrow> Returned (Inl e) | Inr _ \<Rightarrow> after_server s)
   | Waiting \<Rightarrow> if cancelled st then Returned (Inr ()) else Waiting
   | Returned r \<Rightarrow> Returned r)"
  by (simp add: main_step_def split: main_state.split sum.split)

lemma after_server_running: "after_server s \<noteq> Returned r"
  by (cases s) simp_all

lemma main_ok_step: "main_ok (parse_addr env) st \<Longrightarrow> main_ok (parse_addr env) (daemon_step env a st)"
  by (auto simp: main_ok_def cancelled_daemon_step main_daemon_step main_main_step after_server_running
      split: action.splits main_state.splits sum.splits if_splits)

lemma main_ok_run: "main_ok (parse_addr env) st \<Longrightarrow> main_ok (parse_addr env) (fold (daemon_step env) acts st)"
  by (induction acts arbitrary: st) (simp_all add: main_ok_step)

lemma config_run [simp]: "config (fold (daemon_step env) acts st) = config st"
  by (induction acts arbitrary: st) simp_all

lemma cancelled_run: "cancelled (fold (daemon_step env) acts st) \<Longrightarrow> cancelled st \<or> CtrlC \<in> set acts"
proof (induction acts arbitrary: st)
  case (Cons a acts)
  from Cons.IH [of "daemon_step env a st"] Cons.prems show ?case by (auto simp: cancelled_daemon_step)
qed simp

lemma boot_fields [simp]: "main (boot env args w) = Spawning Tcp" "config (boot env args w) = args" "\<not> cancelled (boot env args w)"
  by (simp_all add: boot_def split: prod.split)

text \<open>Where \<open>main\<close> is after \<open>n\<close> steps, if every address parses and nobody cancels.\<close>

definition main_after :: "nat \<Rightarrow> main_state" where
  "main_after n = (if n < 3 then Spawning ([Tcp, Ws, Grpc] ! n) else Waiting)"

lemma main_after_Suc: "main_after (Suc n) = (case main_after n of Spawning s \<Rightarrow> after_server s | m \<Rightarrow> m)"
proof -
  consider "n = 0" | "n = 1" | "n = 2" | "3 \<le> n" by linarith
  then show ?thesis by cases (simp_all add: main_after_def)
qed

lemma main_run_after:
  assumes "\<And>s. parse_addr env (bind_address s (config st)) = Inr ()" and "CtrlC \<notin> set acts" and "\<not> cancelled st"
    and "main st = main_after n"
  shows "main (fold (daemon_step env) acts st) = main_after (n + count_list acts MainStep)"
  using assms
proof (induction acts arbitrary: st n)
  case (Cons a acts)
  have "main (daemon_step env a st) = main_after (if a = MainStep then Suc n else n)"
    using Cons.prems(1,3,4) main_after_Suc [of n]
    by (auto simp: main_daemon_step main_main_step split: action.split main_state.splits)
  with Cons.IH [of "daemon_step env a st" "if a = MainStep then Suc n else n"] Cons.prems show ?case
    by (auto simp: cancelled_daemon_step)
qed simp

section \<open>Properties\<close>

text \<open>C33: Only the operator stops the daemon. With addresses that parse, \<open>main\<close> spawns its three servers
  one after the other and then waits, and no failure of a server, a client or an interface makes it
  return; it returns \<open>Ok\<close> only after Ctrl+C, and an error only for an address
  that does not parse. But nothing restarts a server either: once one has failed (a failed \<open>bind\<close>, one
  failed \<open>accept\<close>) the daemon runs on without it.\<close>

theorem daemon_outlives_failures:
  "(CtrlC \<notin> set acts \<longrightarrow> (\<forall>a\<in>{tcp_bind args, ws_bind args, grpc_bind args}. parse_addr env a = Inr ())
      \<longrightarrow> main (daemon_run env args w acts) =
        (let n = count_list acts MainStep in if n < 3 then Spawning ([Tcp, Ws, Grpc] ! n) else Waiting))
    \<and> (main (daemon_run env args w acts) = Returned (Inr ()) \<longrightarrow> CtrlC \<in> set acts)
    \<and> (\<forall>e. main (daemon_run env args w acts) = Returned (Inl e) \<longrightarrow>
         (\<exists>a\<in>{tcp_bind args, ws_bind args, grpc_bind args}. parse_addr env a = Inl e))
    \<and> (server_of s (daemon_run env args w acts) = Over \<longrightarrow> server_of s (daemon_run env args w (acts @ later)) = Over)"
proof (intro conjI allI impI)
  let ?st = "daemon_run env args w acts"
  have ok: "main_ok (parse_addr env) ?st" unfolding daemon_run_def by (rule main_ok_run) (simp add: main_ok_def)
  have addr: "bind_address s args \<in> {tcp_bind args, ws_bind args, grpc_bind args}" for s by (cases s) auto
  show "main ?st = (let n = count_list acts MainStep in if n < 3 then Spawning ([Tcp, Ws, Grpc] ! n) else Waiting)"
    if "CtrlC \<notin> set acts" and "\<forall>a\<in>{tcp_bind args, ws_bind args, grpc_bind args}. parse_addr env a = Inr ()"
  proof -
    have "parse_addr env (bind_address s args) = Inr ()" for s using that(2) addr [of s] by blast
    with main_run_after [of env "boot env args w" acts 0] that(1) show ?thesis
      by (simp add: daemon_run_def main_after_def Let_def)
  qed
  show "CtrlC \<in> set acts" if "main ?st = Returned (Inr ())"
    using that ok cancelled_run [of env acts "boot env args w"] by (simp add: main_ok_def daemon_run_def)
  show "\<exists>a\<in>{tcp_bind args, ws_bind args, grpc_bind args}. parse_addr env a = Inl e" if "main ?st = Returned (Inl e)" for e
  proof -
    have "\<exists>s. parse_addr env (bind_address s (config ?st)) = Inl e" using that ok by (simp add: main_ok_def)
    then obtain s where "parse_addr env (bind_address s args) = Inl e" by (auto simp: daemon_run_def)
    with addr [of s] show ?thesis by metis
  qed
  show "server_of s (daemon_run env args w (acts @ later)) = Over" if "server_of s ?st = Over"
    using that server_over_run [OF spawning_ok_run [OF spawning_ok_boot]] by (simp add: daemon_run_def)
qed

text \<open>C34: Shutting down does not reach the receivers. Ctrl+C makes a waiting \<open>main\<close> return \<open>Ok\<close>, and an address
  that does not parse makes it return the error; but a receiver thread that has opened its socket, before
  or after that, reads on it for ever: in every run, \<open>main\<close> returned or not, it is where it was, and
  what it reads next is still published.\<close>

theorem receivers_outlive_main:
  assumes "reading k st"
  shows "(main st = Waiting \<longrightarrow> main (fold (daemon_step env) [CtrlC, MainStep] st) = Returned (Inr ()))
    \<and> (\<forall>s e. main st = Spawning s \<longrightarrow> parse_addr env (bind_address s (config st)) = Inl e
         \<longrightarrow> main (daemon_step env MainStep st) = Returned (Inl e))
    \<and> rx_threads (fold (daemon_step env) acts st) ! k = rx_threads st ! k
    \<and> (let st' = fold (daemon_step env) acts st
       in published (core (daemon_step env (RxRead k input) st'))
            = published (core st') @ rx_event env (rx_threads st ! k) input)"
proof -
  let ?st' = "fold (daemon_step env) acts st"
  note r = reading_run [OF assms, of env acts]
  have "task_step env (RxRead k input) ?st' = ?st'" by simp
  then have "published (core (daemon_step env (RxRead k input) ?st')) = published (core ?st') @ rx_event env (rx_threads st ! k) input"
    using thread_step_sources [of env k input ?st'] r by (simp add: daemon_step_def del: thread_step.simps)
  moreover have "main (fold (daemon_step env) [CtrlC, MainStep] st) = Returned (Inr ())" if "main st = Waiting"
    using that by (simp add: main_daemon_step main_main_step cancelled_daemon_step running_def)
  ultimately show ?thesis using r by (auto simp: main_daemon_step main_main_step Let_def)
qed

section \<open>A concrete daemon\<close>

text \<open>One CAN interface, one binary TCP client, and a frame read from the interface.\<close>

definition sample_env ::
    "(u16, u32, (u16, u32) can_id \<times> bytes, (u16, u32) can_id \<times> bytes \<times> fd_flag set, string, string,
      (u16, u32) can_id \<times> bytes, (string \<times> (u16, u32) can_id \<times> bytes) list) env" where
  "sample_env = \<lparr>socketcan_lib = recording_socketcan, as_normal = Some,
     netlink = (\<lambda>w. (Inr [Inr [IfName ''vcan0'']], w)), system_clock = (\<lambda>_. 0), serde_json = sample_json,
     debug_str = id, broadcast_recv = ring_recv, parse_addr = (\<lambda>_. Inr ())\<rparr>"

definition sample_frame :: frame_event where
  "sample_frame = \<lparr>ev_ts_ms = 0, ev_iface = ''vcan0'', ev_dir = Rx, ev_id = 0x123, ev_is_fd = True, ev_data = [1]\<rparr>"

text \<open>The daemon with its three servers spawned.\<close>

definition sample_up :: "(string \<times> (u16, u32) can_id \<times> bytes) list daemon" where
  "sample_up = \<lparr>core = new_bridge [], conns = [], next_id = 1, tcp_server = Binding, ws_server = Binding,
     grpc_server = Binding, rx_threads = [(''vcan0'', RxOpening)], ticking = None, config = default_args,
     cancelled = False, main = Waiting\<rparr>"

lemma sample_documented: "bus_documented (broadcast_recv sample_env)"
  by (simp add: sample_env_def ring_recv_documented)

lemma sample_startup: "startup (ports_of sample_env) False [] = (\<lparr>receivers = [''vcan0''], generator = None\<rparr>, [])"
  by code_simp

lemma sample_parse_addr [simp]: "parse_addr sample_env a = Inr ()"
  by (simp add: sample_env_def)

lemma boot_sample:
  "daemon_run sample_env default_args [] (MainStep # MainStep # MainStep # acts) = fold (daemon_step sample_env) acts sample_up"
proof -
  have "boot sample_env default_args [] = sample_up\<lparr>tcp_server := NotSpawned, ws_server := NotSpawned,
      grpc_server := NotSpawned, main := Spawning Tcp\<rparr>"
    using sample_startup by (simp add: boot_def sample_up_def NEXT_CONN_ID_def) (simp add: default_args_def)
  then show ?thesis
    by (simp add: daemon_run_def daemon_step_def running_def main_step_def sample_up_def)
qed

definition sample_actions :: "((u16, u32) can_id \<times> bytes \<times> fd_flag set, (u16, u32) can_id \<times> bytes) action list" where
  "sample_actions = [MainStep, MainStep, MainStep, Bound Tcp True, Accept, Peek 0 (Inr MAGIC), RxOpen 0,
     RxRead 0 (ReadFd (Inr (Standard 0x123, [1], {})) 0), RecvBus 0 IoOk]"

lemma peeked_magic: "peeked (Inr MAGIC) = TcpBinary Tcp_Binary.session_start"
  by (simp add: peeked_def handle_connection_iff [THEN iffD2])

lemma sample_read:
  "rx_step sample_env (ReadFd (Inr (Standard 0x123, [1], {})) 0) ''vcan0'' RxFd d = (RxFd, publish_frame sample_frame d)"
  by (simp add: rx_step_def rx_fd_step_def sample_env_def recording_socketcan_def sample_frame_def Service.now_ms_def id_to_u32_def)

lemma sample_open: "rx_open (socketcan_lib sample_env) iface w = (RxFd, w)"
  by (simp add: rx_open_def sample_env_def recording_socketcan_def)

lemma sample_run:
  "daemon_run sample_env default_args [] sample_actions =
     sample_up\<lparr>core := \<lparr>world = [], published = [sample_frame]\<rparr>, tcp_server := Serving, next_id := 2,
       rx_threads := [(''vcan0'', RxFd)],
       conns := [\<lparr>client = TcpBinary Tcp_Binary.session_start,
                  bus = \<lparr>since = 0, cursor = 1, seen = [sample_frame], missed = 0\<rparr>\<rparr>]\<rparr>"
  unfolding sample_actions_def boot_sample
  by (simp add: sample_up_def daemon_step_def running_def add_conn_def update_conn_def open_session_def next_conn_id_def
      peeked_magic sample_open sample_read new_bridge_def publish_frame_def recv_client_def receive_def subscribe_frames_def)
    (simp add: sample_env_def ring_recv_def FRAMES_CAPACITY_def Tcp_Binary.writer_step_def Tcp_Binary.should_send_frame_def
      Tcp_Binary.session_start_def enqueue_def)

theorem daemon_outlives_failures_witness:
  "main (daemon_run sample_env default_args [] [MainStep, MainStep, MainStep, Bound Ws False]) = Waiting
   \<and> server_of Ws (daemon_run sample_env default_args [] [MainStep, MainStep, MainStep, Bound Ws False, Bound Ws True]) = Over"
proof -
  have "server_of Ws (daemon_run sample_env default_args [] [MainStep, MainStep, MainStep, Bound Ws False]) = Over"
    by (simp add: boot_sample) (simp add: sample_up_def daemon_step_def running_def)
  then show ?thesis
    using daemon_outlives_failures [of "[MainStep, MainStep, MainStep, Bound Ws False]" default_args sample_env "[]" Ws "[Bound Ws True]"]
    by simp
qed

theorem receivers_outlive_main_witness:
  "let st = daemon_run sample_env default_args [] [MainStep, MainStep, MainStep, RxOpen 0];
       st' = fold (daemon_step sample_env) [CtrlC, MainStep] st
   in reading 0 st \<and> main st' = Returned (Inr ()) \<and> rx_threads st' ! 0 = (''vcan0'', RxFd)
     \<and> published (core (daemon_step sample_env (RxRead 0 (ReadFd (Inr (Standard 0x123, [1], {})) 0)) st'))
         = published (core st') @ [sample_frame]"
proof -
  let ?st = "daemon_run sample_env default_args [] [MainStep, MainStep, MainStep, RxOpen 0]"
  have st: "?st = sample_up\<lparr>rx_threads := [(''vcan0'', RxFd)]\<rparr>"
    by (simp add: boot_sample) (simp add: sample_up_def daemon_step_def running_def sample_open new_bridge_def)
  then have r: "reading 0 ?st" and w: "main ?st = Waiting" and t: "rx_threads ?st ! 0 = (''vcan0'', RxFd)"
    by (simp_all add: reading_def sample_up_def)
  have "rx_event sample_env (''vcan0'', RxFd) (ReadFd (Inr (Standard 0x123, [1], {})) 0) = [sample_frame]"
    by (simp add: rx_event_def sample_env_def recording_socketcan_def sample_frame_def Service.now_ms_def id_to_u32_def)
  with receivers_outlive_main [OF r, of sample_env "[CtrlC, MainStep]" "ReadFd (Inr (Standard 0x123, [1], {})) 0"] r w t
  show ?thesis by (simp add: Let_def del: fold_simps)
qed

text \<open>The client says hello and subscribes, then a frame comes in and is forwarded to it.\<close>

definition sample_subscribe :: ClientBinaryRequest where
  "sample_subscribe = ClientBinaryRequest.Subscribe [''vcan0'']"

definition ready_session :: tcp_binary where
  "ready_session = Tcp_Binary.session_start\<lparr>subs := {''vcan0''}, outgoing := [], Tcp_Binary.phase := Tcp_Binary.Decoding,
     wire := concat (map daemon_packet [Tcp_Binary.hello_ack, DaemonBinaryResponse.Subscribed [''vcan0'']])\<rparr>"

definition sample_session :: tcp_binary where
  "sample_session = Tcp_Binary.session_start\<lparr>subs := {''vcan0''}, outgoing := [], Tcp_Binary.phase := Tcp_Binary.Decoding,
     wire := concat (map daemon_packet [Tcp_Binary.hello_ack, DaemonBinaryResponse.Subscribed [''vcan0''],
       Tcp_Binary.frame_event_to_daemon_binary sample_frame])\<rparr>"

definition forward_setup :: "((u16, u32) can_id \<times> bytes \<times> fd_flag set, (u16, u32) can_id \<times> bytes) action list" where
  "forward_setup = [MainStep, MainStep, MainStep, Bound Tcp True, Accept, Peek 0 (Inr MAGIC),
     ReadClient 0 (BytesIn (Tcp_Binary.Read (client_packet sample_hello @ client_packet sample_subscribe))),
     ReadClient 0 (BytesIn Tcp_Binary.Proceed), WriteClient 0 IoOk, WriteClient 0 IoOk,
     RxOpen 0, RxRead 0 (ReadFd (Inr (Standard 0x123, [1], {})) 0)]"

definition forward_actions :: "((u16, u32) can_id \<times> bytes \<times> fd_flag set, (u16, u32) can_id \<times> bytes) action list" where
  "forward_actions = forward_setup @ [RecvBus 0 IoOk]"

lemma decode_forward:
  "decode_client_from (client_packet sample_hello @ client_packet sample_subscribe)
     = Inr (Some (sample_hello, length (client_packet sample_hello)))"
  "decode_client_from (client_packet sample_subscribe) = Inr (Some (sample_subscribe, length (client_packet sample_subscribe)))"
proof -
  have "client_ok sample_subscribe" by (simp add: client_ok_def sample_subscribe_def strings_ok_def string_ok_ascii length_put_string)
  from decode_client_from_packet [OF this, of "[]"]
  show "decode_client_from (client_packet sample_subscribe) = Inr (Some (sample_subscribe, length (client_packet sample_subscribe)))"
    by simp
qed (rule decode_client_from_packet [OF sample_ok(1)])

lemma forward_reads:
  "Tcp_Binary.reader_step ports dbg (Tcp_Binary.Read (client_packet sample_hello @ client_packet sample_subscribe))
      (Tcp_Binary.session_start, d)
    = (Tcp_Binary.session_start\<lparr>Tcp_Binary.receive_buffer := client_packet sample_subscribe, Tcp_Binary.phase := Tcp_Binary.Decoding\<rparr>, d)"
  "Tcp_Binary.reader_step ports dbg Tcp_Binary.Proceed
      (Tcp_Binary.session_start\<lparr>Tcp_Binary.receive_buffer := client_packet sample_subscribe, Tcp_Binary.phase := Tcp_Binary.Decoding\<rparr>, d)
    = (Tcp_Binary.session_start\<lparr>Tcp_Binary.receive_buffer := [], Tcp_Binary.phase := Tcp_Binary.Decoding, subs := {''vcan0''},
         outgoing := [Tcp_Binary.hello_ack, DaemonBinaryResponse.Subscribed [''vcan0'']]\<rparr>, d)"
  by (simp_all add: Tcp_Binary.reader_step_def Tcp_Binary.handshake_step_def Tcp_Binary.decode_step_def decode_forward)
    (simp_all add: sample_hello_def sample_subscribe_def enqueue_def)

lemma setup_run:
  "daemon_run sample_env default_args [] forward_setup =
     sample_up\<lparr>core := \<lparr>world = [], published = [sample_frame]\<rparr>, tcp_server := Serving, next_id := 2,
       rx_threads := [(''vcan0'', RxFd)],
       conns := [\<lparr>client = TcpBinary ready_session, bus = \<lparr>since = 0, cursor = 0, seen = [], missed = 0\<rparr>\<rparr>]\<rparr>"
  unfolding forward_setup_def boot_sample
  by (simp add: sample_up_def daemon_step_def running_def add_conn_def update_conn_def open_session_def next_conn_id_def
      peeked_magic sample_open sample_read new_bridge_def publish_frame_def subscribe_frames_def forward_reads)
    (simp add: Tcp_Binary.writer_step_def Tcp_Binary.session_start_def Tcp_Binary.write_response_def encode_daemon_total
      write_out_def ready_session_def enqueue_def)

lemma forward_run:
  "daemon_run sample_env default_args [] forward_actions =
     sample_up\<lparr>core := \<lparr>world = [], published = [sample_frame]\<rparr>, tcp_server := Serving, next_id := 2,
       rx_threads := [(''vcan0'', RxFd)],
       conns := [\<lparr>client = TcpBinary sample_session,
                  bus = \<lparr>since = 0, cursor = 1, seen = [sample_frame], missed = 0\<rparr>\<rparr>]\<rparr>"
proof -
  have "daemon_run sample_env default_args [] forward_actions
      = daemon_step sample_env (RecvBus 0 IoOk) (daemon_run sample_env default_args [] forward_setup)"
    by (simp add: daemon_run_def forward_actions_def)
  then show ?thesis
    unfolding setup_run
    by (simp add: sample_up_def daemon_step_def running_def update_conn_def recv_client_def receive_def ready_session_def)
      (simp add: sample_env_def ring_recv_def FRAMES_CAPACITY_def Tcp_Binary.writer_step_def Tcp_Binary.should_send_frame_def
        Tcp_Binary.session_start_def Tcp_Binary.write_response_def encode_daemon_total write_out_def sample_session_def
        sample_frame_def enqueue_def)
qed

end
