(* ===== verification/Daemon_Delivery.thy ===== *)
theory Daemon_Delivery
  imports Daemon_Lifecycle
begin

text \<open>
  From the bus to the clients of the running daemon: the tasks of one connection leave every other
  connection alone, and a connection whose turn comes often enough is sent exactly the frames it asked
  for, whatever the transport.
\<close>

section \<open>Connections do not interfere\<close>

text \<open>The connection whose state an action changes; the others do not concern an existing connection.\<close>

fun acts_on :: "('ff, 'f) action \<Rightarrow> nat option" where
  "acts_on (Peek i peek) = Some i"
| "acts_on (ReadClient i input) = Some i"
| "acts_on (WriteClient i io) = Some i"
| "acts_on (RecvBus i io) = Some i"
| "acts_on (TestFilters i io) = Some i"
| "acts_on _ = None"

lemma conns_thread_step [simp]: "conns (thread_step env a st) = conns st"
  by (cases a) (auto simp: Let_def split: prod.splits)

lemma other_conn_task:
  assumes "j < length (conns st)" and "acts_on a \<noteq> Some j"
  shows "j < length (conns (task_step env a st)) \<and> conns (task_step env a st) ! j = conns st ! j"
  using assms
  by (cases a) (auto simp: Let_def next_conn_id_def add_conn_def update_conn_def nth_append
      split: option.split prod.split)

lemma other_conn_run:
  assumes "j < length (conns st)" and "\<forall>a\<in>set acts. acts_on a \<noteq> Some j"
  shows "j < length (conns (fold (daemon_step env) acts st)) \<and> conns (fold (daemon_step env) acts st) ! j = conns st ! j"
  using assms
proof (induction acts arbitrary: st)
  case (Cons a acts)
  have "j < length (conns (daemon_step env a st)) \<and> conns (daemon_step env a st) ! j = conns st ! j"
    using other_conn_task [of j st a env] Cons.prems by (simp add: daemon_step_def)
  with Cons.IH [of "daemon_step env a st"] Cons.prems show ?case by simp
qed simp

section \<open>Turns\<close>

text \<open>One turn of the writer of connection \<open>i\<close>: it receives from the bus and finishes with the event.\<close>

definition turn :: "nat \<Rightarrow> ('ff, 'f) action list" where
  "turn i = [RecvBus i IoOk, TestFilters i IoOk]"

primrec turns :: "nat \<Rightarrow> nat \<Rightarrow> ('ff, 'f) action list" where
  "turns i 0 = []"
| "turns i (Suc n) = turn i @ turns i n"

text \<open>A session after it was sent those of the given events it asked for.\<close>

fun sent_frames :: "json \<Rightarrow> frame_event list \<Rightarrow> client_session \<Rightarrow> client_session" where
  "sent_frames json evs (TcpBinary s) = TcpBinary (s\<lparr>wire := wire s @
     concat (map (\<lambda>ev. daemon_packet (Tcp_Binary.frame_event_to_daemon_binary ev))
       (filter (\<lambda>ev. ev_iface ev \<in> subs s) evs))\<rparr>)"
| "sent_frames json evs (TcpJsonl s) = TcpJsonl (s\<lparr>wire := wire s @
     concat (map (\<lambda>ev. the (line_of json (frame_event_to_json_response ev)))
       (filter (\<lambda>ev. ev_iface ev \<in> subs s) evs))\<rparr>)"
| "sent_frames json evs (WsBinary s) = WsBinary (s\<lparr>wire := wire s @
     map (\<lambda>ev. Binary (daemon_packet (Ws_Binary.frame_event_to_daemon_binary ev)))
       (filter (\<lambda>ev. ev_iface ev \<in> subs s) evs)\<rparr>)"
| "sent_frames json evs (WsJsonl s) = WsJsonl (s\<lparr>wire := wire s @
     map (\<lambda>ev. Text (projr (to_string json (frame_event_to_response ev))))
       (filter (\<lambda>ev. ev_iface ev \<in> fst (subs s)
          \<and> (snd (subs s) = [] \<or> (\<exists>flt\<in>set (snd (subs s)). frame_matches_filter ev flt))) evs)\<rparr>)"
| "sent_frames json evs (GrpcStream ifaces out) =
     GrpcStream ifaces (out @ map (\<lambda>ev. Inr (domain_frame_to_pb ev)) (filter (\<lambda>ev. ev_iface ev \<in> ifaces) evs))"
| "sent_frames json evs Peeking = Peeking"

lemma sent_frames_Nil [simp]: "sent_frames json [] c = c"
  by (cases c) simp_all

lemma sent_frames_append: "sent_frames json (evs @ evs') c = sent_frames json evs' (sent_frames json evs c)"
  by (cases c) simp_all

lemma listening_sent_frames [simp]: "listening (sent_frames json evs c) = listening c"
  by (cases c) simp_all

lemma documented_text: "json_documented json \<Longrightarrow> to_string json r = Inr (projr (to_string json r))"
  unfolding json_documented_def by (metis sum.sel(2))

lemma documented_line: "json_documented json \<Longrightarrow> line_of json r = Some (the (line_of json r))"
  using line_of_documented [of json r] by simp

lemma jws_turn:
  assumes "json_documented json" and "writer_alive s" and "pending s = None"
  shows "test_filters json IoOk (write_client json (BusEvent ev IoOk) (WsJsonl s)) = sent_frames json [ev] (WsJsonl s)"
  using assms documented_text [OF assms(1), of "frame_event_to_response ev"]
  by (auto simp: Ws_Jsonl.writer_step_def iface_check_def filters_check_def Ws_Jsonl.write_response_def write_out_def
      list_ex_iff Let_def split: sum.split)

text \<open>One turn with an event, for every transport.\<close>

lemma client_turn:
  assumes "json_documented json" and "listening c"
  shows "test_filters json IoOk (write_client json (BusEvent ev IoOk) c) = sent_frames json [ev] c"
proof (cases c)
  case (TcpBinary s)
  with assms show ?thesis
    using tcp.wstep_event [of s ev] by (simp add: Tcp_Binary.should_send_frame_def)
next
  case (TcpJsonl s)
  with assms show ?thesis
    using jsonl.wstep_event [OF _ documented_line [OF assms(1)], of s ev] by (simp add: Tcp_Jsonl.should_send_frame_def)
next
  case (WsBinary s)
  with assms show ?thesis
    using ws.wstep_event [of s ev] by (simp add: Ws_Binary.should_send_frame_def message_of_def)
next
  case (WsJsonl s)
  with assms jws_turn show ?thesis by simp
qed (use assms in \<open>auto simp: subscribe_item_def\<close>)

text \<open>A receiver that is behind, but not more than the capacity, gets the next event.\<close>

lemma bus_next:
  assumes "bus_documented recv" and "place < length events" and "length events - place \<le> FRAMES_CAPACITY"
  shows "recv events place = (Received (events ! place), Suc place)"
proof -
  obtain res place' where r: "recv events place = (res, place')" by (rule prod.exhaust)
  with assms show ?thesis
    unfolding bus_documented_def by (cases res) (auto dest!: spec [of _ events] spec [of _ place])
qed

text \<open>A connection after some more events of the bus.\<close>

definition caught_up :: "json \<Rightarrow> frame_event list \<Rightarrow> connection \<Rightarrow> connection" where
  "caught_up json evs c =
     \<lparr>client = sent_frames json evs (client c),
      bus = (bus c)\<lparr>cursor := cursor (bus c) + length evs, seen := seen (bus c) @ evs\<rparr>\<rparr>"

lemma caught_up_Nil: "caught_up json [] c = c"
  by (simp add: caught_up_def)

lemma caught_up_append: "caught_up json evs' (caught_up json evs c) = caught_up json (evs @ evs') c"
  by (simp add: caught_up_def sent_frames_append)

lemma turn_run:
  assumes "bus_documented (broadcast_recv env)" and "json_documented (serde_json env)"
    and "running st" and "i < length (conns st)" and "listening (client (conns st ! i))"
    and "cursor (bus (conns st ! i)) < length (published (core st))"
    and "length (published (core st)) - cursor (bus (conns st ! i)) \<le> FRAMES_CAPACITY"
  shows "fold (daemon_step env) (turn i) st = st\<lparr>conns := (conns st)[i :=
    caught_up (serde_json env) [published (core st) ! cursor (bus (conns st ! i))] (conns st ! i)]\<rparr>"
  using assms(3,4,5) bus_next [OF assms(1,6,7)] client_turn [OF assms(2,5)]
  by (simp add: turn_def daemon_step_def running_def update_conn_def recv_client_def receive_def caught_up_def)

lemma turns_run:
  assumes "bus_documented (broadcast_recv env)" and "json_documented (serde_json env)"
    and "running st" and "i < length (conns st)" and "listening (client (conns st ! i))"
    and "length (published (core st)) = cursor (bus (conns st ! i)) + n" and "n \<le> FRAMES_CAPACITY"
  shows "fold (daemon_step env) (turns i n) st = st\<lparr>conns := (conns st)[i :=
    caught_up (serde_json env) (drop (cursor (bus (conns st ! i))) (published (core st))) (conns st ! i)]\<rparr>"
  using assms(3-7)
proof (induction n arbitrary: st)
  case 0
  then show ?case by (simp add: caught_up_Nil)
next
  case (Suc n)
  let ?c = "conns st ! i"
  let ?ev = "published (core st) ! cursor (bus ?c)"
  let ?c' = "caught_up (serde_json env) [?ev] ?c"
  let ?st = "st\<lparr>conns := (conns st)[i := ?c']\<rparr>"
  have "fold (daemon_step env) (turn i) st = ?st"
    by (rule turn_run [OF assms(1,2)]) (use Suc.prems in simp_all)
  moreover have "fold (daemon_step env) (turns i n) ?st = ?st\<lparr>conns := (conns ?st)[i :=
      caught_up (serde_json env) (drop (cursor (bus (conns ?st ! i))) (published (core ?st))) (conns ?st ! i)]\<rparr>"
    by (rule Suc.IH) (use Suc.prems in \<open>simp_all add: running_def caught_up_def\<close>)
  moreover have "drop (cursor (bus ?c)) (published (core st)) = ?ev # drop (cursor (bus ?c')) (published (core st))"
    using Suc.prems by (simp add: caught_up_def Cons_nth_drop_Suc)
  ultimately show ?case
    using Suc.prems caught_up_append [of "serde_json env" _ "[?ev]" ?c] by simp
qed

section \<open>Queued replies\<close>

text \<open>The number of queued replies of a session, and the session after its writer wrote the first \<open>n\<close> of them.\<close>

fun queued :: "client_session \<Rightarrow> nat" where
  "queued (TcpBinary s) = length (outgoing s)"
| "queued (TcpJsonl s) = length (outgoing s)"
| "queued (WsBinary s) = length (outgoing s)"
| "queued (WsJsonl s) = length (outgoing s)"
| "queued _ = 0"

fun sent_replies :: "json \<Rightarrow> nat \<Rightarrow> client_session \<Rightarrow> client_session" where
  "sent_replies json n (TcpBinary s) = TcpBinary (s\<lparr>outgoing := drop n (outgoing s),
     wire := wire s @ concat (map daemon_packet (take n (outgoing s)))\<rparr>)"
| "sent_replies json n (TcpJsonl s) = TcpJsonl (s\<lparr>outgoing := drop n (outgoing s),
     wire := wire s @ concat (map (\<lambda>r. the (line_of json r)) (take n (outgoing s)))\<rparr>)"
| "sent_replies json n (WsBinary s) = WsBinary (s\<lparr>outgoing := drop n (outgoing s),
     wire := wire s @ map (\<lambda>r. Binary (daemon_packet r)) (take n (outgoing s))\<rparr>)"
| "sent_replies json n (WsJsonl s) = WsJsonl (s\<lparr>outgoing := drop n (outgoing s),
     wire := wire s @ map (\<lambda>r. Text (projr (to_string json r))) (take n (outgoing s))\<rparr>)"
| "sent_replies json n c = c"

lemma sent_replies_0 [simp]: "sent_replies json 0 c = c"
  by (cases c) simp_all

lemma take_Suc_split: "take (Suc n) xs = take (Suc 0) xs @ take n (drop (Suc 0) xs)"
  by (cases xs) simp_all

lemma sent_replies_Suc: "sent_replies json n (sent_replies json 1 c) = sent_replies json (Suc n) c"
  by (cases c) (simp_all add: take_Suc_split [of n])

lemma update_sent_replies_0 [simp]: "client_update (sent_replies json 0) c = c"
  by (cases c) simp

lemma queued_sent [simp]: "queued (sent_replies json n c) = queued c - n" "listening (sent_replies json n c) = listening c"
  by (cases c; simp)+

text \<open>One reply, for every transport.\<close>

lemma client_reply:
  assumes "json_documented json" and "listening c" and "0 < queued c"
  shows "write_client json (Recv IoOk) c = sent_replies json 1 c"
proof (cases c)
  case (TcpBinary s)
  with assms(3) obtain r rs where "outgoing s = r # rs" by (cases "outgoing s") auto
  with TcpBinary assms(2) tcp.wstep_reply [of s r rs] show ?thesis by simp
next
  case (TcpJsonl s)
  with assms(3) obtain r rs where "outgoing s = r # rs" by (cases "outgoing s") auto
  with TcpJsonl assms(2) jsonl.wstep_reply [OF _ _ documented_line [OF assms(1)], of s r rs] show ?thesis by simp
next
  case (WsBinary s)
  with assms(3) obtain r rs where "outgoing s = r # rs" by (cases "outgoing s") auto
  with WsBinary assms(2) ws.wstep_reply [of s r rs] show ?thesis by (simp add: message_of_def)
next
  case (WsJsonl s)
  with assms(3) obtain r rs where "outgoing s = r # rs" by (cases "outgoing s") auto
  with WsJsonl assms(2) documented_text [OF assms(1), of r] show ?thesis
    by (auto simp: Ws_Jsonl.writer_step_def Ws_Jsonl.write_response_def write_out_def split: sum.split)
qed (use assms(3) in simp_all)

lemma replies_run:
  assumes "json_documented (serde_json env)" and "running st" and "i < length (conns st)"
    and "listening (client (conns st ! i))" and "n \<le> queued (client (conns st ! i))"
  shows "fold (daemon_step env) (replicate n (WriteClient i IoOk)) st
    = st\<lparr>conns := (conns st)[i := client_update (sent_replies (serde_json env) n) (conns st ! i)]\<rparr>"
  using assms(2-5)
proof (induction n arbitrary: st)
  case (Suc n)
  let ?c = "client_update (sent_replies (serde_json env) 1) (conns st ! i)"
  let ?st = "st\<lparr>conns := (conns st)[i := ?c]\<rparr>"
  have "daemon_step env (WriteClient i IoOk) st = ?st"
    using client_reply [OF assms(1) Suc.prems(3)] Suc.prems
    by (simp add: daemon_step_def update_conn_def) (cases "conns st ! i", simp)
  moreover have "fold (daemon_step env) (replicate n (WriteClient i IoOk)) ?st
      = ?st\<lparr>conns := (conns ?st)[i := client_update (sent_replies (serde_json env) n) (conns ?st ! i)]\<rparr>"
    by (rule Suc.IH) (use Suc.prems in \<open>simp_all add: running_def\<close>)
  moreover have "client_update (sent_replies (serde_json env) n) ?c
      = client_update (sent_replies (serde_json env) (Suc n)) (conns st ! i)"
    using sent_replies_Suc [of "serde_json env" n "client (conns st ! i)"] by (cases "conns st ! i") simp
  ultimately show ?case using Suc.prems by simp
qed simp

section \<open>What a run shows a client\<close>

text \<open>The frames a session asks for now, and the part of the test that comes second where there are two locks.\<close>

definition matches :: "frame_filter list \<Rightarrow> frame_event \<Rightarrow> bool" where
  "matches filters ev \<longleftrightarrow> filters = [] \<or> (\<exists>flt\<in>set filters. frame_matches_filter ev flt)"

fun asks :: "client_session \<Rightarrow> frame_event \<Rightarrow> bool" where
  "asks (TcpBinary s) ev \<longleftrightarrow> ev_iface ev \<in> subs s"
| "asks (TcpJsonl s) ev \<longleftrightarrow> ev_iface ev \<in> subs s"
| "asks (WsBinary s) ev \<longleftrightarrow> ev_iface ev \<in> subs s"
| "asks (WsJsonl s) ev \<longleftrightarrow> ev_iface ev \<in> fst (subs s) \<and> matches (snd (subs s)) ev"
| "asks (GrpcStream ifaces out) ev \<longleftrightarrow> ev_iface ev \<in> ifaces"
| "asks Peeking ev \<longleftrightarrow> False"

fun filters_of :: "client_session \<Rightarrow> frame_filter list" where
  "filters_of (WsJsonl s) = snd (subs s)"
| "filters_of _ = []"

fun at_hand :: "client_session \<Rightarrow> frame_event list" where
  "at_hand (WsJsonl s) = (case pending s of None \<Rightarrow> [] | Some ev \<Rightarrow> [ev])"
| "at_hand _ = []"

text \<open>What the receiver of a connection gets when its turn comes.\<close>

definition gets :: "('sid, 'eid, 'cf, 'ff, 'cs, 'fs, 'f, 'w) env \<Rightarrow> 'w bridge \<Rightarrow> connection \<Rightarrow> frame_event list" where
  "gets env d c = (if listening (client c) then received (fst (receive (broadcast_recv env) d (bus c))) else [])"

text \<open>
  Of the events a receiver gets, those its client is due; with two locks they are only taken in hand.
  And the one at hand, if it passes the second test.
\<close>

definition due :: "client_session \<Rightarrow> frame_event list \<Rightarrow> frame_event list" where
  "due c evs = (case c of WsJsonl s \<Rightarrow> [] | _ \<Rightarrow> filter (asks c) evs)"

definition tested :: "client_session \<Rightarrow> frame_event list" where
  "tested c = (case c of WsJsonl s \<Rightarrow> if writer_alive s then filter (matches (snd (subs s))) (at_hand c) else [] | _ \<Rightarrow> [])"

text \<open>
  The frames connection \<open>i\<close> is to be shown by an action: those the receiver gets that the session asks
  for at that moment, or, with two locks, the one at hand if it matches the filters at that moment.
\<close>

definition shown_now :: "('sid, 'eid, 'cf, 'ff, 'cs, 'fs, 'f, 'w) env \<Rightarrow> nat \<Rightarrow> ('ff, 'f) action \<Rightarrow> 'w daemon \<Rightarrow> frame_event list" where
  "shown_now env i a st =
     (if running st \<and> acts_on a = Some i
      then (case a of
              RecvBus j io \<Rightarrow> due (client (conns st ! i)) (gets env (core st) (conns st ! i))
            | TestFilters j io \<Rightarrow> tested (client (conns st ! i))
            | _ \<Rightarrow> [])
      else [])"

primrec shown :: "('sid, 'eid, 'cf, 'ff, 'cs, 'fs, 'f, 'w) env \<Rightarrow> nat \<Rightarrow> ('ff, 'f) action list \<Rightarrow> 'w daemon \<Rightarrow> frame_event list" where
  "shown env i [] st = []"
| "shown env i (a # acts) st = shown_now env i a st @ shown env i acts (daemon_step env a st)"

text \<open>
  From one state of a client's session to a later one: if its writer still runs, its output grew by
  replies and exactly the given frames, encoded as the transport does.
\<close>

fun sent_as :: "json \<Rightarrow> frame_event list \<Rightarrow> client_session \<Rightarrow> client_session \<Rightarrow> bool" where
  "sent_as json fs (TcpBinary s) (TcpBinary s') \<longleftrightarrow>
     adds (\<lambda>r. Some (daemon_packet r)) Tcp_Binary.frame_event_to_daemon_binary binary_reply fs s s'"
| "sent_as json fs (TcpJsonl s) (TcpJsonl s') \<longleftrightarrow>
     adds (line_of json) frame_event_to_json_response json_answer fs s s'"
| "sent_as json fs (WsBinary s) (WsBinary s') \<longleftrightarrow>
     adds (\<lambda>r. Some (message_of r)) Ws_Binary.frame_event_to_daemon_binary binary_reply fs s s'"
| "sent_as json fs (WsJsonl s) (WsJsonl s') \<longleftrightarrow>
     adds (text_of json) frame_event_to_response json_answer fs s s'"
| "sent_as json fs (GrpcStream ifaces out) (GrpcStream ifaces' out') \<longleftrightarrow>
     ifaces' = ifaces \<and> out' = out @ map (\<lambda>ev. Inr (domain_frame_to_pb ev)) fs"
| "sent_as json fs _ _ \<longleftrightarrow> False"

lemma sent_as_refl: "c \<noteq> Peeking \<Longrightarrow> sent_as json [] c c"
  by (cases c) simp_all

lemma sent_as_trans: "sent_as json fs c c' \<Longrightarrow> sent_as json gs c' c'' \<Longrightarrow> sent_as json (fs @ gs) c c''"
  by (cases c; cases c'; cases c'') (auto intro: adds_trans)

lemma sent_as_open: "sent_as json fs c c' \<Longrightarrow> c' \<noteq> Peeking"
  by (cases c; cases c') simp_all

lemma sent_as_read:
  assumes "read_client env input (c, d) = (c', d')" and "c \<noteq> Peeking"
  shows "sent_as json [] c c'"
proof -
  note effects = reader_effect ws_reader_effect jsonl_reader_effect jws_reader_effect
  show ?thesis
    using assms sent_as_refl [OF assms(2)]
    by (cases "(env, input, (c, d))" rule: read_client.cases)
      (auto simp: map_prod_def split: prod.splits dest!: effects intro: adds_only_sends)
qed

lemma documented_encodes:
  assumes "json_documented json"
  shows "line_of json r \<noteq> None" and "text_of json r \<noteq> None"
  using documented_line [OF assms, of r] documented_text [OF assms, of r] by (auto simp: text_of_def split: sum.splits)

text \<open>The writer with two locks adds the frame at hand when it matches, and replies.\<close>

lemma jws_adds:
  assumes "json_documented json"
  shows "adds (text_of json) frame_event_to_response json_answer
    (case event of CheckFilters io \<Rightarrow> tested (WsJsonl s) | _ \<Rightarrow> []) s (Ws_Jsonl.writer_step json event s)"
proof (cases "writer_alive s")
  case True
  have w: "adds (text_of json) frame_event_to_response json_answer fs s (emit True (text_of json) io (entry_resp frame_event_to_response e) t)"
    if "frames [e] = fs" "wire t = wire s" "replies [e] @ outgoing t = outgoing s" for fs e io t
  proof -
    obtain out where out: "text_of json (entry_resp frame_event_to_response e) = Some out" using documented_encodes(2) [OF assms] by blast
    show ?thesis
    proof (cases io)
      case IoOk
      with out that True show ?thesis
        by (intro addsI [of _ _ _ _ "[e]" _ "[]"]) (simp_all add: emit_def write_out_def)
    qed (simp add: out adds_def emit_def write_out_def stop_writer_def)
  qed
  have same: "adds (text_of json) frame_event_to_response json_answer [] s (s\<lparr>pending := p\<rparr>)" for p
    using True by (intro addsI [of _ _ _ _ "[]" _ "[]"]) simp_all
  show ?thesis
  proof (cases "pending s")
    case None
    have "adds (text_of json) frame_event_to_response json_answer [] s (emit True (text_of json) io r (s\<lparr>outgoing := rs\<rparr>))"
      if "outgoing s = r # rs" for r rs io
      using w [of "Reply r" "[]" "s\<lparr>outgoing := rs\<rparr>" io] that by simp
    with None True same show ?thesis
      by (auto simp: Ws_Jsonl.writer_step_def write_response_emit tested_def
          split: writer_event.split writer_input.split list.split)
  next
    case (Some ev)
    with True same w [of "Forwarded ev" "[ev]" "s\<lparr>pending := None\<rparr>"] show ?thesis
      by (auto simp: Ws_Jsonl.writer_step_def write_response_emit Let_def filters_check_iff matches_def tested_def split: writer_event.split)
  qed
qed (simp add: adds_def Ws_Jsonl.writer_step_def)

lemma due_Nil [simp]: "due c [] = []"
  by (simp add: due_def split: client_session.split)

lemma sent_as_write:
  assumes "json_documented json" and "c \<noteq> Peeking"
  shows "sent_as json (due c (bus_frames input)) c (write_client json input c)"
proof (cases c)
  case (TcpBinary s)
  moreover have "asks c = Tcp_Binary.should_send_frame (subs s)"
    using TcpBinary by (auto simp: fun_eq_iff Tcp_Binary.should_send_frame_def)
  ultimately show ?thesis using tcp.adds_wstep [of binary_reply s input] by (simp add: due_def)
next
  case (TcpJsonl s)
  moreover have "asks c = Tcp_Jsonl.should_send_frame (subs s)"
    using TcpJsonl by (auto simp: fun_eq_iff Tcp_Jsonl.should_send_frame_def)
  ultimately show ?thesis using jsonl.adds_wstep [OF documented_encodes(1) [OF assms(1)], of json_answer s input] by (simp add: due_def)
next
  case (WsBinary s)
  moreover have "asks c = Ws_Binary.should_send_frame (subs s)"
    using WsBinary by (auto simp: fun_eq_iff Ws_Binary.should_send_frame_def)
  ultimately show ?thesis using ws.adds_wstep [of binary_reply s input] by (simp add: due_def)
next
  case (WsJsonl s)
  then show ?thesis using jws_adds [OF assms(1), of s "Input input"] by (simp add: due_def)
next
  case (GrpcStream ifaces out)
  then show ?thesis by (cases input) (auto simp: subscribe_item_def due_def)
qed (use assms(2) in simp)

lemma sent_as_test:
  assumes "json_documented json" and "c \<noteq> Peeking"
  shows "sent_as json (tested c) c (test_filters json io c)"
proof (cases c)
  case (WsJsonl s)
  then show ?thesis using jws_adds [OF assms(1), of s "CheckFilters io"] by simp
qed (use assms(2) in \<open>simp_all add: tested_def\<close>)

lemma sent_as_recv:
  assumes "json_documented (serde_json env)" and "client c \<noteq> Peeking"
  shows "sent_as (serde_json env) (due (client c) (gets env d c)) (client c) (client (recv_client env io d c))"
proof (cases "listening (client c)")
  case True
  obtain res r where rc: "receive (broadcast_recv env) d (bus c) = (res, r)" by (rule prod.exhaust)
  note sent = sent_as_write [OF assms]
  show ?thesis
  proof (cases res)
    case (Received ev)
    with sent [of "BusEvent ev io"] rc True show ?thesis by (simp add: recv_client_def gets_def)
  next
    case (Lagged n)
    with sent [of "BusLagged n"] rc True show ?thesis by (simp add: recv_client_def gets_def)
  next
    case Empty
    with rc True sent_as_refl [OF assms(2)] show ?thesis
      by (simp add: recv_client_def gets_def)
  qed
next
  case False
  with sent_as_refl [OF assms(2)] show ?thesis by (simp add: recv_client_def gets_def)
qed

text \<open>One action, as far as connection \<open>i\<close> is concerned.\<close>

lemma conns_kept: "i < length (conns st) \<Longrightarrow> i < length (conns (daemon_step env a st))"
proof (cases "acts_on a = Some i")
  case False
  then show "i < length (conns st) \<Longrightarrow> ?thesis" using other_conn_task [of i st a env] by (simp add: daemon_step_def)
next
  case True
  then show "i < length (conns st) \<Longrightarrow> ?thesis"
    by (cases a) (auto simp: daemon_step_def update_conn_def Let_def split: prod.split)
qed

lemma conn_step:
  assumes "i < length (conns st)" and "client (conns st ! i) \<noteq> Peeking"
  shows "conns (daemon_step env a st) ! i =
    (let c = conns st ! i in
     if \<not> running st \<or> acts_on a \<noteq> Some i then c
     else case a of
       ReadClient j input \<Rightarrow> c\<lparr>client := fst (read_client env input (client c, core st))\<rparr>
     | WriteClient j io \<Rightarrow> c\<lparr>client := write_client (serde_json env) (Recv io) (client c)\<rparr>
     | RecvBus j io \<Rightarrow> recv_client env io (core st) c
     | TestFilters j io \<Rightarrow> c\<lparr>client := test_filters (serde_json env) io (client c)\<rparr>
     | _ \<Rightarrow> c)"
proof (cases "running st \<and> acts_on a = Some i")
  case True
  then show ?thesis using assms
    by (cases a) (auto simp: daemon_step_def update_conn_def Let_def split: prod.split)
next
  case False
  then show ?thesis using other_conn_task [OF assms(1), of a env] by (auto simp: daemon_step_def Let_def)
qed

lemma shown_step:
  assumes "json_documented (serde_json env)" and "i < length (conns st)" and "client (conns st ! i) \<noteq> Peeking"
  shows "sent_as (serde_json env) (shown_now env i a st) (client (conns st ! i)) (client (conns (daemon_step env a st) ! i))"
proof (cases "running st \<and> acts_on a = Some i")
  case True
  let ?c = "conns st ! i"
  note refl = sent_as_refl [OF assms(3)] and recv = sent_as_recv [OF assms(1,3)] and test = sent_as_test [OF assms(1,3)]
  show ?thesis
  proof (cases a)
    case (ReadClient j input)
    obtain session d where "read_client env input (client ?c, core st) = (session, d)" by (rule prod.exhaust)
    with sent_as_read [OF this assms(3)] True ReadClient show ?thesis
      by (simp add: conn_step [OF assms(2,3)] shown_now_def Let_def)
  next
    case (WriteClient j io)
    with sent_as_write [OF assms(1,3), of "Recv io"] True show ?thesis
      by (simp add: conn_step [OF assms(2,3)] shown_now_def Let_def)
  next
    case (RecvBus j io)
    with recv [of "core st" io] True show ?thesis
      by (simp add: conn_step [OF assms(2,3)] shown_now_def Let_def)
  next
    case (TestFilters j io)
    with test [of io] True show ?thesis
      by (simp add: conn_step [OF assms(2,3)] shown_now_def Let_def)
  qed (use True refl in \<open>simp_all add: conn_step [OF assms(2,3)] shown_now_def Let_def\<close>)
next
  case False
  with sent_as_refl [OF assms(3)] show ?thesis
    by (auto simp: conn_step [OF assms(2,3)] shown_now_def Let_def)
qed

lemma shown_run:
  assumes "json_documented (serde_json env)" and "i < length (conns st)" and "client (conns st ! i) \<noteq> Peeking"
  shows "i < length (conns (fold (daemon_step env) acts st))
    \<and> client (conns (fold (daemon_step env) acts st) ! i) \<noteq> Peeking
    \<and> sent_as (serde_json env) (shown env i acts st) (client (conns st ! i)) (client (conns (fold (daemon_step env) acts st) ! i))"
  using assms(2,3)
proof (induction acts arbitrary: st)
  case Nil
  then show ?case by (simp add: sent_as_refl)
next
  case (Cons a acts)
  note step = shown_step [OF assms(1) Cons.prems, of a]
  from Cons.IH [OF conns_kept [OF Cons.prems(1)] sent_as_open [OF step]] sent_as_trans [OF step] show ?case by simp
qed

text \<open>While the client sends no request, what it asks for stays as it is.\<close>

lemma write_keeps:
  "asks (write_client json input c) = asks c" "filters_of (write_client json input c) = filters_of c"
proof -
  have "asks (write_client json input c) = asks c \<and> filters_of (write_client json input c) = filters_of c"
    by (cases "(json, input, c)" rule: write_client.cases) (auto simp: fun_eq_iff)
  then show "asks (write_client json input c) = asks c" "filters_of (write_client json input c) = filters_of c" by simp_all
qed

lemma test_keeps:
  "asks (test_filters json io c) = asks c" "filters_of (test_filters json io c) = filters_of c"
  by (cases c; auto simp: fun_eq_iff)+

text \<open>The frame at hand after a step of the writer.\<close>

lemma at_hand_write:
  assumes "listening c"
  shows "due c (bus_frames input) @ filter (matches (filters_of c)) (at_hand (write_client json input c))
    = filter (asks c) (bus_frames input)"
proof (cases c)
  case (WsJsonl s)
  with assms show ?thesis
    by (cases input) (auto simp: due_def Ws_Jsonl.writer_step_def Ws_Jsonl.write_response_def write_out_def stop_writer_def
        iface_check_def split: list.split sum.split io.split)
next
  case (GrpcStream ifaces out)
  then show ?thesis by (cases input) (auto simp: due_def)
qed (use assms in \<open>auto simp: due_def\<close>)

lemma at_hand_reply: "at_hand (write_client json (Recv io) c) = at_hand c"
  by (cases c) (auto simp: Ws_Jsonl.writer_step_def Ws_Jsonl.write_response_def write_out_def stop_writer_def
      split: list.split sum.split io.split option.split)

lemma at_hand_test:
  "tested c @ filter (matches (filters_of c)) (at_hand (test_filters json io c)) = filter (matches (filters_of c)) (at_hand c)"
  by (cases c) (auto simp: tested_def Ws_Jsonl.writer_step_def pending_write_response Let_def split: option.split)

definition heard :: "('sid, 'eid, 'cf, 'ff, 'cs, 'fs, 'f, 'w) env \<Rightarrow> nat \<Rightarrow> ('ff, 'f) action \<Rightarrow> 'w daemon \<Rightarrow> frame_event list" where
  "heard env i a st =
     (if running st \<and> acts_on a = Some i
      then (case a of RecvBus j io \<Rightarrow> gets env (core st) (conns st ! i) | _ \<Rightarrow> []) else [])"

lemma recv_effect:
  "asks (client (recv_client env io d c)) = asks (client c) \<and> filters_of (client (recv_client env io d c)) = filters_of (client c)
   \<and> seen (bus (recv_client env io d c)) = seen (bus c) @ gets env d c
   \<and> due (client c) (gets env d c) @ filter (matches (filters_of (client c))) (at_hand (client (recv_client env io d c)))
     = filter (matches (filters_of (client c))) (at_hand (client c)) @ filter (asks (client c)) (gets env d c)"
proof (cases "listening (client c)")
  case True
  then have none: "at_hand (client c) = []" by (cases "client c") simp_all
  obtain res r where rc: "receive (broadcast_recv env) d (bus c) = (res, r)" by (rule prod.exhaust)
  then have "seen r = seen (bus c) @ received res" by (auto simp: receive_def split: prod.splits)
  with rc True none at_hand_write [OF True, of "BusEvent _ io" "serde_json env"] at_hand_write [OF True, of "BusLagged _" "serde_json env"]
  show ?thesis by (cases res) (simp_all add: recv_client_def gets_def write_keeps)
qed (simp add: recv_client_def gets_def)

lemma heard_step:
  assumes "i < length (conns st)" and "client (conns st ! i) \<noteq> Peeking" and "\<forall>input. a \<noteq> ReadClient i input"
  shows "let c = conns st ! i; c' = conns (daemon_step env a st) ! i in
    asks (client c') = asks (client c) \<and> filters_of (client c') = filters_of (client c)
    \<and> seen (bus c') = seen (bus c) @ heard env i a st
    \<and> shown_now env i a st @ filter (matches (filters_of (client c))) (at_hand (client c'))
      = filter (matches (filters_of (client c))) (at_hand (client c)) @ filter (asks (client c)) (heard env i a st)"
proof (cases "running st \<and> acts_on a = Some i")
  case True
  note simps = conn_step [OF assms(1,2)] Let_def heard_def shown_now_def
  show ?thesis
  proof (cases a)
    case (RecvBus j io)
    with True recv_effect [of env io "core st" "conns st ! i"] show ?thesis by (simp add: simps)
  next
    case (TestFilters j io)
    with True at_hand_test [of "client (conns st ! i)" "serde_json env" io] show ?thesis by (simp add: simps test_keeps)
  qed (use True assms(3) in \<open>auto simp: simps write_keeps at_hand_reply\<close>)
next
  case False
  then have "conns (daemon_step env a st) ! i = conns st ! i" "heard env i a st = []" "shown_now env i a st = []"
    using other_conn_task [OF assms(1), of a env] by (auto simp: daemon_step_def heard_def shown_now_def)
  then show ?thesis by (simp add: Let_def)
qed

lemma heard_run:
  assumes "json_documented (serde_json env)"
    and "i < length (conns st)" and "client (conns st ! i) \<noteq> Peeking" and "\<forall>input. ReadClient i input \<notin> set acts"
    and "c' = conns (fold (daemon_step env) acts st) ! i"
  shows "\<exists>evs. seen (bus c') = seen (bus (conns st ! i)) @ evs
    \<and> shown env i acts st @ filter (matches (filters_of (client (conns st ! i)))) (at_hand (client c'))
      = filter (matches (filters_of (client (conns st ! i)))) (at_hand (client (conns st ! i)))
        @ filter (asks (client (conns st ! i))) evs"
  using assms(2-5)
proof (induction acts arbitrary: st)
  case (Cons a acts)
  let ?st = "daemon_step env a st"
  have "\<forall>input. a \<noteq> ReadClient i input" "\<forall>input. ReadClient i input \<notin> set acts" using Cons.prems(3) by auto
  note step = heard_step [OF Cons.prems(1,2) this(1), of env, unfolded Let_def]
  have "client (conns ?st ! i) \<noteq> Peeking" by (rule sent_as_open [OF shown_step [OF assms(1) Cons.prems(1,2)]])
  from Cons.IH [OF conns_kept [OF Cons.prems(1)] this] Cons.prems(3,4) step obtain evs where
    "seen (bus c') = seen (bus (conns ?st ! i)) @ evs"
    "shown env i acts ?st @ filter (matches (filters_of (client (conns st ! i)))) (at_hand (client c'))
      = filter (matches (filters_of (client (conns st ! i)))) (at_hand (client (conns ?st ! i)))
        @ filter (asks (client (conns st ! i))) evs" by auto
  with step show ?case by (intro exI [of _ "heard env i a st @ evs"]) simp
qed simp

section \<open>Properties\<close>

text \<open>C2: What clients are shown of the bus, in every run. A receiver gets, in order and each once, a subsequence
  of the events published since it subscribed, and all of them unless it was told of a loss; a loss is
  reported only to a receiver that is more than the bus capacity behind. Of what its receiver gets, a
  client whose writer runs is sent exactly the events its subscription (and its filters) ask for when
  they are tested, in order and each once, encoded as its transport does, and beside them nothing but
  replies. So while a client sends no request it is sent every event its receiver gets that it
  subscribed to, and no other.\<close>

theorem daemon_clients_see_bus:
  assumes "daemon_reach env args st" and "bus_documented (broadcast_recv env)" and "json_documented (serde_json env)"
    and "i < length (conns st)" and "client (conns st ! i) \<noteq> Peeking"
    and "st' = fold (daemon_step env) acts st" and "c = conns st ! i" and "c' = conns st' ! i"
  shows "subseq (seen (bus c')) (offered (published (core st')) (bus c'))
    \<and> (missed (bus c') = 0 \<longrightarrow> seen (bus c') = offered (published (core st')) (bus c'))
    \<and> (missed (bus (recv_client env io (core st') c')) \<noteq> missed (bus c') \<longrightarrow>
         FRAMES_CAPACITY < length (published (core st')) - cursor (bus c'))
    \<and> delivered (serde_json env) (seen (bus c')) (client c')
    \<and> sent_as (serde_json env) (shown env i acts st) (client c) (client c')
    \<and> ((\<forall>input. ReadClient i input \<notin> set acts) \<longrightarrow> at_hand (client c) = [] \<longrightarrow> at_hand (client c') = [] \<longrightarrow>
         shown env i acts st = filter (asks (client c)) (drop (length (seen (bus c))) (seen (bus c'))))"
proof -
  note run = shown_run [OF assms(3-5), of acts, folded assms(6)]
  have "daemon_reach env args st'"
    unfolding assms(6) using assms(1) by (induction acts arbitrary: st) (simp_all add: daemon_reach.step)
  from daemon_reach_inv [OF this assms(2)] run
  have inv: "receiver_ok (published (core st')) (bus c')" "delivered (serde_json env) (seen (bus c')) (client c')"
    by (simp_all add: daemon_inv_def conn_inv_def assms(8))
  have lost: "FRAMES_CAPACITY < length (published (core st')) - cursor (bus c')"
    if "missed (bus (recv_client env io (core st') c')) \<noteq> missed (bus c')"
  proof -
    obtain res r where rc: "receive (broadcast_recv env) (core st') (bus c') = (res, r)" by (rule prod.exhaust)
    with that have "missed r \<noteq> missed (bus c')"
      by (auto simp: recv_client_def split: if_splits bus_result.splits)
    then show ?thesis by (rule receiver_ok_receive(3) [OF assms(2) inv(1) rc])
  qed
  have "shown env i acts st = filter (asks (client c)) (drop (length (seen (bus c))) (seen (bus c')))"
    if "\<forall>input. ReadClient i input \<notin> set acts" "at_hand (client c) = []" "at_hand (client c') = []"
    using heard_run [OF assms(3-5) that(1), of c'] that(2,3) assms(6-8) by auto
  with inv lost run receiver_ok_complete [OF inv(1)] assms(7,8) show ?thesis by (simp add: receiver_ok_def)
qed

text \<open>C3: Frames reach the clients. Whatever the other clients, the interfaces and the servers do in the meantime
  (any run in which the tasks of a connection have no turn), the connection stays as it is, and if it is
  then at most the bus capacity behind, as many turns of its writer as events are waiting bring it up to
  date: it was sent exactly the waiting events it asked for, in order and each once, over every
  transport; and nothing else in the daemon changed.\<close>

theorem published_frames_reach_client:
  assumes "daemon_reach env args st" and "bus_documented (broadcast_recv env)" and "json_documented (serde_json env)"
    and "i < length (conns st)" and "listening (client (conns st ! i))"
    and "\<forall>a\<in>set acts. acts_on a \<noteq> Some i" and "fold (daemon_step env) acts st = st'" and "running st'"
    and "length (published (core st')) - cursor (bus (conns st ! i)) \<le> FRAMES_CAPACITY"
  shows "conns st' ! i = conns st ! i
    \<and> fold (daemon_step env) (turns i (length (published (core st')) - cursor (bus (conns st ! i)))) st'
      = st'\<lparr>conns := (conns st')[i :=
          caught_up (serde_json env) (drop (cursor (bus (conns st ! i))) (published (core st'))) (conns st ! i)]\<rparr>"
proof -
  have same: "i < length (conns st')" "conns st' ! i = conns st ! i"
    using other_conn_run [OF assms(4,6), of env] assms(7) by simp_all
  have "daemon_reach env args (fold (daemon_step env) acts st)"
    using assms(1) by (induction acts arbitrary: st) (simp_all add: daemon_reach.step)
  then have "receiver_ok (published (core st')) (bus (conns st' ! i))"
    using daemon_reach_inv [of env args st'] assms(2,7) same(1) by (simp add: daemon_inv_def conn_inv_def)
  then have "cursor (bus (conns st ! i)) \<le> length (published (core st'))" by (simp add: receiver_ok_def same(2))
  with turns_run [OF assms(2,3,8) same(1)] assms(5,9) same(2) show ?thesis by simp
qed

text \<open>C17: Replies reach the clients. From any state of the running daemon in which a session's writer is free, as
  many of its turns as replies are queued write exactly these replies, encoded as the transport does and
  in order, and leave the queue empty, the subscription as it was and the rest of the daemon untouched.\<close>

theorem queued_replies_reach_client:
  assumes "json_documented (serde_json env)" and "running st" and "i < length (conns st)"
    and "listening (client (conns st ! i))"
  shows "fold (daemon_step env) (replicate (queued (client (conns st ! i))) (WriteClient i IoOk)) st
      = st\<lparr>conns := (conns st)[i :=
          client_update (sent_replies (serde_json env) (queued (client (conns st ! i)))) (conns st ! i)]\<rparr>
    \<and> queued (sent_replies (serde_json env) (queued (client (conns st ! i))) (client (conns st ! i))) = 0"
  using replies_run [OF assms order.refl] by simp

section \<open>Witness\<close>

text \<open>The client subscribes and a frame comes in: it is sent exactly that frame.\<close>

theorem daemon_clients_see_bus_witness:
  "let st = daemon_run sample_env default_args [] forward_setup;
       st' = fold (daemon_step sample_env) [RecvBus 0 IoOk] st
   in shown sample_env 0 [RecvBus 0 IoOk] st = [sample_frame]
     \<and> seen (bus (conns st' ! 0)) = offered (published (core st')) (bus (conns st' ! 0))
     \<and> sent_as (serde_json sample_env) [sample_frame] (client (conns st ! 0)) (client (conns st' ! 0))"
proof -
  let ?st = "daemon_run sample_env default_args [] forward_setup"
  let ?st' = "fold (daemon_step sample_env) [RecvBus 0 IoOk] ?st"
  have json: "json_documented (serde_json sample_env)" by (simp add: sample_env_def sample_json_documented)
  have st: "0 < length (conns ?st)" "client (conns ?st ! 0) = TcpBinary ready_session" "seen (bus (conns ?st ! 0)) = []"
    by (simp_all add: setup_run)
  have st': "client (conns ?st' ! 0) = TcpBinary sample_session" "seen (bus (conns ?st' ! 0)) = [sample_frame]"
    "missed (bus (conns ?st' ! 0)) = 0"
    using forward_run by (simp_all add: forward_actions_def daemon_run_def)
  have "asks (TcpBinary ready_session) sample_frame" by (simp add: ready_session_def sample_frame_def)
  moreover note daemon_clients_see_bus [where acts = "[RecvBus 0 IoOk]" and io = IoOk,
      OF daemon_run_reach sample_documented json st(1) _ refl refl refl]
  ultimately show ?thesis using st st' by (auto simp: Let_def simp del: fold_simps shown.simps sent_as.simps)
qed

text \<open>A second frame comes in, and one turn later the client has it.\<close>

theorem published_frames_reach_client_witness:
  "client (conns (fold (daemon_step sample_env) (RxRead 0 (ReadFd (Inr (Standard 0x123, [1], {})) 0) # turns 0 1)
       (daemon_run sample_env default_args [] forward_actions)) ! 0)
     = TcpBinary (sample_session\<lparr>wire := wire sample_session
         @ daemon_packet (Tcp_Binary.frame_event_to_daemon_binary sample_frame)\<rparr>)"
proof -
  let ?st = "daemon_run sample_env default_args [] forward_actions"
  let ?a = "RxRead 0 (ReadFd (Inr (Standard 0x123, [1], {})) 0)"
  let ?st' = "?st\<lparr>core := \<lparr>world = [], published = [sample_frame, sample_frame]\<rparr>\<rparr>"
  have json: "json_documented (serde_json sample_env)" by (simp add: sample_env_def sample_json_documented)
  have "fold (daemon_step sample_env) [?a] ?st = ?st'"
    by (simp add: forward_run sample_up_def daemon_step_def running_def sample_read publish_frame_def)
  note published_frames_reach_client [OF daemon_run_reach sample_documented json _ _ _ this, of 0]
  then have "fold (daemon_step sample_env) (turns 0 1) ?st' = ?st'\<lparr>conns := (conns ?st')[0 :=
      caught_up (serde_json sample_env) [sample_frame] (conns ?st ! 0)]\<rparr>"
    by (simp add: forward_run running_def sample_up_def sample_session_def Tcp_Binary.session_start_def enqueue_def
        FRAMES_CAPACITY_def)
  moreover have "ev_iface sample_frame \<in> subs sample_session" by (simp add: sample_frame_def sample_session_def)
  ultimately show ?thesis
    using \<open>fold (daemon_step sample_env) [?a] ?st = ?st'\<close> by (simp add: forward_run sample_up_def caught_up_def)
qed

text \<open>A new binary client is sent its \<open>HelloAck\<close>.\<close>

theorem queued_replies_reach_client_witness:
  "client (conns (fold (daemon_step sample_env) (replicate 1 (WriteClient 0 IoOk))
       (daemon_run sample_env default_args [] sample_actions)) ! 0)
     = TcpBinary (Tcp_Binary.session_start\<lparr>outgoing := [], wire := daemon_packet Tcp_Binary.hello_ack\<rparr>)"
proof -
  have json: "json_documented (serde_json sample_env)" by (simp add: sample_env_def sample_json_documented)
  from queued_replies_reach_client [OF json, of "daemon_run sample_env default_args [] sample_actions" 0]
  show ?thesis
    by (simp add: sample_run running_def sample_up_def Tcp_Binary.session_start_def enqueue_def del: replicate.simps)
qed

end
