(* ===== verification/Spec2Isabelle.thy ===== *)
theory Spec2Isabelle
  imports Example_Client Json_Clients Daemon_Delivery
begin

text \<open>
  The CAN bridge daemon (\<open>src/src\<close>): clients reach the CAN interfaces of a Linux host over TCP,
  WebSocket or gRPC. They list interfaces, send frames, and subscribe to the frames seen on the bus.

  \<^bold>\<open>Parts and how they interact.\<close> The service (\<open>app/service.rs\<close>) answers requests using two
  ports, interface discovery and frame transmission, and owns a broadcast bus of frame events. The
  SocketCAN adapters implement transmission (\<open>infra/socketcan_tx.rs\<close>) and put received frames on the
  bus (\<open>infra/socketcan_rx.rs\<close>); a generator can add fake ones. Each connection runs a session:
  a reader that decodes requests, asks the service and queues the replies on a channel, and a writer
  task that drains the channel and forwards the events of the bus the client subscribed to. There are
  four such sessions (binary or JSON, over TCP or WebSocket), and gRPC calls instead of a session.
  \<open>main.rs\<close> wires these together.

  \<^bold>\<open>Theories.\<close>
  \<^item> \<open>CB_Prelude\<close>: machine integers and their little-endian bytes, results and the question-mark
    operator, readers of byte slices, a termination lemma for loops that consume input.
    \<open>Rust_String\<close>: strings as their UTF-8 bytes, \<open>from_utf8\<close>, \<open>chars\<close>, \<open>trim\<close>, derived \<open>Debug\<close>.
  \<^item> \<open>Binary_Message\<close>, \<open>Codec_Stream\<close>: \<open>domain/binary_message.rs\<close>, messages, framing, payloads and
    the decoding of a stream. Round trips in both directions, soundness of the decoder on arbitrary
    bytes, independence of how the stream is cut (locales \<open>stream_decoder\<close>, \<open>framed_codec\<close>,
    interpreted for requests and responses).
  \<^item> \<open>Frame\<close>, \<open>Service\<close>: \<open>domain/frame.rs\<close>, \<open>domain/protocol.rs\<close>, \<open>app/service.rs\<close>, the ports. The
    record \<open>bridge\<close> is the state: the outside world the ports act on, and the events published so
    far. Hexadecimal decoding is characterised exactly; \<open>handle\<close> publishes exactly what it
    acknowledges (locale \<open>request_handler\<close>, which the transports rely on). \<open>Frame_Log\<close>: the records of
    \<open>log_frame\<close>, which identify a frame up to its time stamp.
  \<^item> \<open>Socketcan\<close>, \<open>Discovery\<close>, \<open>Fake_Generator\<close>: the adapters under \<open>infra\<close>; limits of what is sent,
    exactness of what is received, discovered and generated.
  \<^item> \<open>Session\<close>: what the four sessions share. The record \<open>session\<close> holds the subscription state, the
    channel, whether its two ends live, and what was written. \<open>writer_spec\<close> is the reference writer,
    \<open>explains\<close> and \<open>served\<close> relate a state to its history; the locales \<open>session_writer\<close>,
    \<open>subscription_gate\<close> and \<open>streaming_session\<close> (which extends both) carry the proofs once.
    \<open>Delivery\<close> follows the forwarded frames through the output of a session (\<open>written\<close>: which frames
    it is made of; \<open>adds\<close>: what one step puts there). \<open>Binary_Session\<close> and
    \<open>Json_Session\<close> add what the binary and the JSON ones share.
  \<^item> \<open>Tcp_Binary\<close>, \<open>Tcp_Jsonl\<close>, \<open>Ws_Binary\<close>, \<open>Ws_Jsonl\<close> (with \<open>Ws_Message\<close>): the sessions, one theory
    per source file, each with its phases, its \<open>dispatch\<close>, reader and writer steps and the relation
    \<open>reach\<close> of all interleavings. For each: replies in request order, none lost or invented while the
    writer runs; forwarding only as subscribed; the ways a session ends. In \<open>Ws_Jsonl\<close>, where interfaces
    and filters change in two steps, forwarding is stated by the \<open>moments\<close> of the subscription state.
  \<^item> \<open>Transport_Grpc\<close>: \<open>infra/transport_grpc.rs\<close>, the five calls and the subscription stream.
  \<^item> \<open>Protocol_Json\<close>: the JSON form of requests and responses, as the \<open>serde\<close> attributes of
    \<open>domain/protocol.rs\<close> give it. Round trips, and exactly which objects are requests: missing,
    mistyped and repeated fields included. \<open>Json_Sample\<close> is a printer and parser on which its
    hypothesis holds.
  \<^item> \<open>Servers\<close>: how a connection finds its session. \<open>Daemon\<close>: \<open>main.rs\<close>, the service on the real
    adapters, and startup.
  \<^item> \<open>Frame_Bus\<close>: the bus of \<open>app/service.rs\<close> seen by its receivers: what one has got, what it missed.
  \<^item> \<open>Daemon_System\<close>: the running daemon, \<open>main.rs\<close> with the \<open>run\<close> functions of the three servers, all
    connections, the receiver threads and the generator in one state (record \<open>daemon\<close>); \<open>daemon_step\<close>
    is one step of one of its tasks, and \<open>daemon_reach\<close> the states any interleaving leads to. \<open>boot\<close> is
    \<open>main\<close> up to the receivers and the generator; \<open>main_step\<close> then spawns one server after the other,
    waits and returns, while the tasks spawned so far run.
    \<open>Daemon_Invariants\<close>: every session in it is a session as the transport theories describe it, and
    what each step puts on the bus comes from a transmission, a read or a tick, exactly.
    \<open>Daemon_Lifecycle\<close>: what makes \<open>main\<close> return, and what runs on after it. \<open>Daemon_Delivery\<close>: in every
    run a client is sent exactly the events it asked for of those its receiver got; connections do not
    interfere with each other, and turns of a connection's writer bring it the waiting frames it asked
    for and the queued replies, exactly, over every transport.
  \<^item> \<open>Example_Client\<close>, \<open>Json_Clients\<close>: the programs under \<open>examples/rust\<close>, each joined with a session of
    the daemon; and what a client that parses the lines of a JSON session gets.
  \<^item> This theory: properties that span components (all transports send alike, a client decodes the
    replies, a frame sent by one client reaches the others, what a client decodes was published, the
    decoding loops end).

  \<^bold>\<open>How sessions are modelled.\<close> A reader step is one completed read, message or line, or the decoding
  and dispatch of one buffered request; a writer step is one completed branch of its \<open>select!\<close>. The
  inputs of a step are what the runtime returned: bytes in chunks of any size, errors, the hello
  timeout, bus events, lag, closing of the bus, and the result of each write with the number of units
  that went out. \<open>reach\<close> lets reader, writer and other tasks (which may change the bridge) take steps
  in any order. Within a step nothing else happens, except in \<open>Ws_Jsonl\<close>, where the source takes two
  locks one after the other and the model has a step for each. \<open>HelloAck\<close>, which three sessions send
  before they read, is in the initial state: the writer cannot have ended by then, because it ends only
  on a closed channel, a failed write (there is nothing to write yet) or a closed bus, and the service
  the session holds keeps the bus open.

  \<^bold>\<open>Parameters and hypotheses.\<close> Code outside the repository is a parameter: \<open>socketcan\<close> (record
  \<open>socketcan\<close>, with \<open>ids_documented\<close>: raw identifiers in range are accepted and kept, and
  \<open>spawn_documented\<close>: a blocking task that can be joined returns what its closure returned),
  \<open>serde_json\<close> (record \<open>json\<close>, with \<open>json_documented\<close>: the printer is total, and its output has no
  line feed, and \<open>serde_documented\<close>: plain objects are printed and read as the values of \<open>Protocol_Json\<close>;
  which arrays the derived readers take in place of objects is the parameter \<open>seqs\<close>),
  \<open>tokio\<close>'s broadcast channel (\<open>broadcast_recv\<close>, with \<open>bus_documented\<close>: events in order, a loss
  reported to a receiver more than the capacity behind), the parsing of addresses, the link dump of \<open>rtnetlink\<close>, the
  \<open>Debug\<close> rendering of strings (\<open>dbg_str\<close>) and the clock. Hypotheses are used only where a property
  names them, and each has an instance on which its witness is evaluated.

  \<^bold>\<open>Bounds.\<close> There is no fuel: the loops are structural, or end because each round consumes input.
  Loops that run forever in the program (readers, writers, receivers, the generator) are step
  functions. Integers keep their width (\<open>u8\<close> to \<open>u64\<close>): the length fields, the identifiers, the fake
  counter and the connection ids wrap as machine integers; \<open>usize\<close> is \<open>nat\<close>, since lengths of vectors
  in memory stay below its range.

  \<^bold>\<open>Processes and time.\<close> In \<open>Daemon_System\<close> every completed system call is an action with its result, so
  a run is a list of actions and nothing is assumed of scheduling. The asynchronous tasks take steps
  until \<open>main\<close> has returned. The receivers are blocking tasks and go on; when the process ends is up to
  \<open>tokio\<close>, which drops the runtime then, and is not modelled. Timers (the hello
  timeout, the generator's 200 ms, the retry sleep) are actions that may happen at any moment.

  \<^bold>\<open>Not modelled.\<close> The \<open>tracing\<close> calls have no effect on behaviour and are left out of the
  operations. The HTTP and
  HTTP/2 layers under WebSocket and gRPC, the command line parser and the protobuf code are libraries
  or generated; the build script runs that generator. The socket cache declared in \<open>socketcan_tx.rs\<close>
  is never used.
\<close>

section \<open>The transports agree\<close>

text \<open>C6: Sending a frame is the same operation on every transport: with the payload in hexadecimal where the
  transport is textual, all five leave the bridge in the state the service leaves it in, and four
  queue, and the fifth returns, the service's acknowledgement.\<close>

theorem transports_send_alike:
  "\<exists>ok e d'. handle ports (ClientRequest.SendFrame iface i is_fd brs esi (Frame.hex_lower data)) d
        = (DaemonResponse.SendAck ok e, d')
    \<and> Tcp_Binary.dispatch ports dbg_str (ClientBinaryRequest.SendFrame iface i is_fd brs esi data) (tb, d)
        = (enqueue (DaemonBinaryResponse.SendAck ok e) tb, d')
    \<and> Ws_Binary.dispatch ports dbg_str (ClientBinaryRequest.SendFrame iface i is_fd brs esi data) (wb, d)
        = (enqueue (DaemonBinaryResponse.SendAck ok e) wb, d')
    \<and> Tcp_Jsonl.dispatch ports (ClientRequest.SendFrame iface i is_fd brs esi (Frame.hex_lower data)) (tj, d)
        = (enqueue (DaemonResponse.SendAck ok e) tj, d')
    \<and> Ws_Jsonl.dispatch ports (ClientRequest.SendFrame iface i is_fd brs esi (Frame.hex_lower data)) (wj, d)
        = (enqueue (DaemonResponse.SendAck ok e) wj, d')
    \<and> grpc_send_frame ports dbg_str iface i is_fd brs esi (Frame.hex_lower data) d
        = (Inr \<lparr>ack_ok = ok, ack_error = (case e of None \<Rightarrow> [] | Some m \<Rightarrow> m)\<rparr>, d')"
  by (rule bridge.serve_send_cases [of ports iface i is_fd brs esi "Frame.hex_lower data" d])
    (simp add: Tcp_Binary.send_frame_reply_def Ws_Binary.send_frame_reply_def grpc_send_frame_def del: handle.simps)

text \<open>C18: The decoding loops of both binary transports end: within one round per twelve buffered bytes and one
  more, the reader waits for input again or has ended the session, whatever the bytes are and however
  the requests in them turn out.\<close>

theorem binary_decoding_loops_end:
  "(\<exists>n. n \<le> length (Tcp_Binary.receive_buffer tb) div 12 + 1
      \<and> Tcp_Binary.phase (fst ((Tcp_Binary.reader_step ports dbg_str Tcp_Binary.Proceed ^^ n) (tb, d))) \<noteq> Tcp_Binary.Decoding)
   \<and> (\<exists>n. n \<le> length (Ws_Binary.receive_buffer wb) div 12 + 1
      \<and> Ws_Binary.phase (fst ((Ws_Binary.reader_step ports dbg_str Ws_Message.Proceed ^^ n) (wb, d))) \<noteq> Ws_Binary.Decoding)"
proof
  show "\<exists>n. n \<le> length (Tcp_Binary.receive_buffer tb) div 12 + 1
      \<and> Tcp_Binary.phase (fst ((Tcp_Binary.reader_step ports dbg_str Tcp_Binary.Proceed ^^ n) (tb, d))) \<noteq> Tcp_Binary.Decoding"
    using consuming_loop_ends [of 12 "\<lambda>(s, d). Tcp_Binary.phase s = Tcp_Binary.Decoding"
        "Tcp_Binary.reader_step ports dbg_str Tcp_Binary.Proceed" "\<lambda>(s, d). length (Tcp_Binary.receive_buffer s)" "(tb, d)"]
      Tcp_Binary.decoding_consumes [of _ ports dbg_str]
    by (fastforce simp: Binary_Message.HEADER_LEN_def split: prod.splits)
  show "\<exists>n. n \<le> length (Ws_Binary.receive_buffer wb) div 12 + 1
      \<and> Ws_Binary.phase (fst ((Ws_Binary.reader_step ports dbg_str Ws_Message.Proceed ^^ n) (wb, d))) \<noteq> Ws_Binary.Decoding"
    using consuming_loop_ends [of 12 "\<lambda>(s, d). Ws_Binary.phase s = Ws_Binary.Decoding"
        "Ws_Binary.reader_step ports dbg_str Ws_Message.Proceed" "\<lambda>(s, d). length (Ws_Binary.receive_buffer s)" "(wb, d)"]
      Ws_Binary.ws_decoding_consumes [of _ ports dbg_str]
    by (fastforce simp: Binary_Message.HEADER_LEN_def split: prod.splits)
qed

section \<open>Client and daemon\<close>

text \<open>What a client decodes from encoded entries.\<close>

lemma responses_in_log:
  assumes "list_all (\<lambda>e. daemon_ok (entry_resp f e)) log"
  shows "responses_in (concat (map (\<lambda>e. daemon_packet (entry_resp f e)) log)) = (None, [], map (entry_resp f) log)"
proof -
  have "list_all daemon_ok (map (entry_resp f) log)" using assms by (simp add: list.pred_map comp_def)
  from responses.msgs_encoded [OF this, of "[]"] show ?thesis
    by (simp add: comp_def responses_in.simps [of "[]"] responses.dec_Nil [of DaemonBinaryResponse.Unsubscribed] daemon_ok_def)
qed

text \<open>C4: Codec and session together: a client of a running binary TCP session that decodes what it received
  with the protocol's own decoder gets exactly the replies written so far, in the order of its requests
  and starting with \<open>HelloAck\<close>, interleaved with the forwarded frames, and no error, provided the texts
  in them fit their length fields.\<close>

theorem tcp_client_decodes_replies:
  assumes "Tcp_Binary.reach ports dbg_str rb s d" and "Tcp_Binary.phase s = Tcp_Binary.Reading" and "writer_alive s"
  shows "\<exists>client protocol ms resps log.
    requests_in rb = (None, Tcp_Binary.receive_buffer s, ClientBinaryRequest.ClientHello client protocol # ms)
    \<and> list_all2 (reply_to ports) ms resps
    \<and> replies log @ outgoing s = Tcp_Binary.hello_ack # resps
    \<and> (list_all (\<lambda>e. daemon_ok (entry_resp Tcp_Binary.frame_event_to_daemon_binary e)) log \<longrightarrow>
        responses_in (wire s) = (None, [], map (entry_resp Tcp_Binary.frame_event_to_daemon_binary) log))"
proof -
  obtain client protocol ms where r: "requests_in rb =
      (None, Tcp_Binary.receive_buffer s, ClientBinaryRequest.ClientHello client protocol # ms)"
    and a: "tcp_answered ports [Tcp_Binary.hello_ack] ms s"
    using Tcp_Binary.reach_reading [OF assms(1,2)] by blast
  from a assms(3) obtain resps log where l: "list_all2 (reply_to ports) ms resps"
    and o: "Tcp_Binary.hello_ack # resps = replies log @ outgoing s"
    and w: "wire s = concat (map (\<lambda>e. daemon_packet (entry_resp Tcp_Binary.frame_event_to_daemon_binary e)) log)"
    by (auto simp: answered_def)
  show ?thesis
    unfolding w using r l o responses_in_log [of Tcp_Binary.frame_event_to_daemon_binary log]
    by (intro exI [of _ client] exI [of _ protocol] exI [of _ ms] exI [of _ resps] exI [of _ log]) simp
qed

theorem tcp_client_decodes_replies_witness:
  "\<exists>s. Tcp_Binary.reach accepting_ports id sample_bytes s empty_bridge \<and> writer_alive s
     \<and> (\<exists>client protocol ms. requests_in sample_bytes
          = (None, Tcp_Binary.receive_buffer s, ClientBinaryRequest.ClientHello client protocol # ms))"
proof -
  note r = Tcp_Binary.reach_sample_served
  have "writer_alive (Tcp_Binary.sample_state\<lparr>Tcp_Binary.receive_buffer := [], Tcp_Binary.phase := Tcp_Binary.Reading,
      outgoing := [Tcp_Binary.hello_ack, DaemonBinaryResponse.Pong 7]\<rparr>)"
    by (simp add: Tcp_Binary.sample_state_def)
  with tcp_client_decodes_replies [OF r] r show ?thesis by fastforce
qed

text \<open>From one client to another: when a frame a client sent is acknowledged, exactly one transmit event is
  on the bus, and every binary TCP session subscribed to that interface appends one packet for it, which
  the receiving client decodes to that interface, identifier, kind and payload; a session not subscribed
  to it writes nothing.\<close>

lemma sent_frame_reaches_subscribers:
  assumes "handle ports (ClientRequest.SendFrame iface i is_fd brs esi data_hex) d = (DaemonResponse.SendAck True e, d')"
    and "writer_alive s" and "string_ok iface" and "hex_to_bytes data_hex = Inr data" and "length data \<le> 65535"
  shows "\<exists>ev. published d' = published d @ [ev] \<and>
    (if iface \<in> subs s
     then \<exists>p. wire (Tcp_Binary.writer_step (BusEvent ev IoOk) s) = wire s @ p
       \<and> decode_daemon_from p = Inr (Some (DaemonBinaryResponse.FrameEvent (ev_ts_ms ev) iface ''tx'' i is_fd data, length p))
     else Tcp_Binary.writer_step (BusEvent ev IoOk) s = s)"
proof -
  obtain ev where p: "published d' = published d @ [ev]"
    and ev: "ev_iface ev = iface" "ev_dir ev = Tx" "ev_id ev = i" "ev_is_fd ev = is_fd" "ev_data ev = data"
    using assms(1,4) by (auto simp: publish_frame_def split: prod.splits sum.splits)
  let ?f = "DaemonBinaryResponse.FrameEvent (ev_ts_ms ev) iface ''tx'' i is_fd data"
  have f: "Tcp_Binary.frame_event_to_daemon_binary ev = ?f"
    using ev by (simp add: Tcp_Binary.frame_event_to_daemon_binary_def)
  have "daemon_ok ?f" using assms(3,5) by (simp add: daemon_ok_def string_ok_ascii)
  from decode_daemon_from_packet [OF this, of "[]"] p ev(1) f assms(2) show ?thesis
    by (auto simp: Tcp_Binary.writer_step_def Tcp_Binary.should_send_frame_def Tcp_Binary.write_response_def
        encode_daemon_total write_out_def intro!: exI [of _ ev])
qed

text \<open>A binary session's output as responses: the replies, and the frames in order.\<close>

lemma frames_in_responses:
  "list_all binary_reply (replies log) \<Longrightarrow>
   filter (\<lambda>r. \<not> binary_reply r) (map (entry_resp Tcp_Binary.frame_event_to_daemon_binary) log)
     = map Tcp_Binary.frame_event_to_daemon_binary (frames log)"
  by (induction log rule: frames.induct)
    (auto simp: binary_reply_def Tcp_Binary.frame_event_to_daemon_binary_def)

text \<open>C10: From the bus to a client of the running daemon: what a binary TCP client decodes from what it was sent is,
  beside replies, frame messages, and these are the renderings of events published since it connected,
  in the order of the bus and none twice.\<close>

theorem binary_client_frames_were_published:
  assumes "daemon_reach env args st" and "bus_documented (broadcast_recv env)"
    and "c \<in> set (conns st)" and "client c = TcpBinary s" and "writer_alive s"
  shows "\<exists>resps evs. wire s = concat (map daemon_packet resps)
    \<and> (list_all daemon_ok resps \<longrightarrow> responses_in (wire s) = (None, [], resps))
    \<and> filter (\<lambda>r. \<not> binary_reply r) resps = map Tcp_Binary.frame_event_to_daemon_binary evs
    \<and> subseq evs (drop (since (bus c)) (published (core st)))"
proof -
  have inv: "receiver_ok (published (core st)) (bus c)" "delivered (serde_json env) (seen (bus c)) (client c)"
    using daemon_reach_inv [OF assms(1,2)] assms(3) by (simp_all add: daemon_inv_def conn_inv_def)
  obtain log where w: "wire s = concat (map (\<lambda>e. daemon_packet (entry_resp Tcp_Binary.frame_event_to_daemon_binary e)) log)"
    and f: "subseq (frames log) (seen (bus c))" and r: "list_all binary_reply (replies log)"
    using inv(2) assms(4,5) by (auto simp: written_def)
  have "subseq (seen (bus c)) (drop (since (bus c)) (published (core st)))"
    using inv(1) subseq_rev_drop_many [of "seen (bus c)" "offered (published (core st)) (bus c)"
        "drop (cursor (bus c) - since (bus c)) (drop (since (bus c)) (published (core st)))"]
    by (simp only: receiver_ok_def offered_def append_take_drop_id)
  with f have "subseq (frames log) (drop (since (bus c)) (published (core st)))" by (rule subseq_order.trans)
  moreover have "wire s = concat (map daemon_packet (map (entry_resp Tcp_Binary.frame_event_to_daemon_binary) log))"
    using w by (simp add: comp_def)
  ultimately show ?thesis
    using frames_in_responses [OF r] responses_in_log [of Tcp_Binary.frame_event_to_daemon_binary log] w
    by (intro exI [of _ "map (entry_resp Tcp_Binary.frame_event_to_daemon_binary) log"] exI [of _ "frames log"])
      (auto simp: list.pred_map comp_def)
qed

theorem binary_client_frames_were_published_witness:
  "wire sample_session = concat (map daemon_packet [Tcp_Binary.hello_ack, DaemonBinaryResponse.Subscribed [''vcan0''],
     Tcp_Binary.frame_event_to_daemon_binary sample_frame])
   \<and> (\<exists>resps evs. wire sample_session = concat (map daemon_packet resps)
        \<and> filter (\<lambda>r. \<not> binary_reply r) resps = map Tcp_Binary.frame_event_to_daemon_binary evs
        \<and> subseq evs [sample_frame])"
proof
  show "wire sample_session = concat (map daemon_packet [Tcp_Binary.hello_ack, DaemonBinaryResponse.Subscribed [''vcan0''],
     Tcp_Binary.frame_event_to_daemon_binary sample_frame])" by (simp add: sample_session_def)
  have "writer_alive sample_session" by (simp add: sample_session_def)
  from binary_client_frames_were_published [OF daemon_run_reach sample_documented _ _ this,
      of "\<lparr>client = TcpBinary sample_session, bus = \<lparr>since = 0, cursor = 1, seen = [sample_frame], missed = 0\<rparr>\<rparr>"
        default_args "[]" forward_actions]
  show "\<exists>resps evs. wire sample_session = concat (map daemon_packet resps)
        \<and> filter (\<lambda>r. \<not> binary_reply r) resps = map Tcp_Binary.frame_event_to_daemon_binary evs
        \<and> subseq evs [sample_frame]"
    by (auto simp: forward_run simp del: subseq_singleton_left)
qed

end
